theory Spec2Isabelle
  imports Main "HOL-Library.AList"
begin

section \<open>Exceptions\<close>

text \<open>
  The elements of an exception's \<^verbatim>\<open>args\<close> tuple that the sources read: integers
  (error codes) and strings (messages, the query text).
\<close>

datatype pyval = IntV int | StrV string

text \<open>
  The exception classes of the two drivers. \<^verbatim>\<open>pymysql.err\<close> and \<^verbatim>\<open>sqlite3\<close> have the
  same DB-API hierarchy: \<^verbatim>\<open>InterfaceError\<close> and \<^verbatim>\<open>DatabaseError\<close> derive from
  \<^verbatim>\<open>Error\<close>, the six others from \<^verbatim>\<open>DatabaseError\<close>; no class has further subclasses.
\<close>

datatype client_err =
    Client_Error | Client_InterfaceError | Client_DatabaseError | Client_DataError
  | Client_OperationalError | Client_IntegrityError | Client_InternalError
  | Client_ProgrammingError | Client_NotSupportedError

datatype sqlite3_err =
    Sqlite3_Error | Sqlite3_InterfaceError | Sqlite3_DatabaseError | Sqlite3_DataError
  | Sqlite3_OperationalError | Sqlite3_IntegrityError | Sqlite3_InternalError
  | Sqlite3_ProgrammingError | Sqlite3_NotSupportedError

text \<open>
  Modelled from the spec: the exception classes of \<^verbatim>\<open>datajoint/errors.py\<close>, a module that
  is not among the source files. The names are the ones \<^verbatim>\<open>connection.py\<close> and
  \<^verbatim>\<open>dependencies.py\<close> use; in the spec's taxonomy every one of them is a
  \<^verbatim>\<open>DataJointError\<close>.
\<close>

datatype dj_err =
    DataJointError | ConnectionError | LostConnectionError | AccessError | DuplicateError
  | IntegrityError | QuerySyntaxError | MissingTableError | MissingAttributeError
  | UnknownAttributeError

text \<open>
  An exception is a class and its \<^verbatim>\<open>args\<close>. \<open>Exception\<close> is Python's plain
  \<^verbatim>\<open>Exception\<close>; the others are the built-in and library errors the modelled code can
  raise.
\<close>

datatype exn =
    Client client_err "pyval list"
  | Sqlite3 sqlite3_err "pyval list"
  | Errors dj_err "pyval list"
  | Exception "pyval list"
  | IndexError
  | AttributeError
  | RecursionError
  | NetworkXError
  | NetworkXUnfeasible

fun is_DataJointError :: "exn \<Rightarrow> bool" where
  "is_DataJointError (Errors k a) = True"
| "is_DataJointError e = False"

section \<open>\<^verbatim>\<open>translate_query_error\<close>\<close>

text \<open>The string \<^verbatim>\<open>(0, '')\<close>, whose two apostrophes are written as character codes.\<close>

definition empty_detail :: string where
  "empty_detail = ''(0, '' @ [CHR 0x27, CHR 0x27] @ '')''"

text \<open>
  \<^verbatim>\<open>disconnect_codes\<close>: the dictionary of the source, as an association list; the lookup
  \<^verbatim>\<open>args[0] in disconnect_codes\<close> succeeds for the two integer keys only.
\<close>

definition disconnect_codes :: "(pyval \<times> string) list" where
  "disconnect_codes =
     [(IntV 2006, ''Connection timed out''), (IntV 2013, ''Server connection lost'')]"

text \<open>
  The function returns an exception (\<open>Inr\<close>) or raises one (\<open>Inl\<close>): indexing the
  \<^verbatim>\<open>args\<close> tuple past its end raises \<^verbatim>\<open>IndexError\<close>. The conditions are tried in the
  order of the source; \<^verbatim>\<open>isinstance(...) and args[0] ...\<close> reads \<^verbatim>\<open>args[0]\<close> only when
  the class matches. \<^verbatim>\<open>args[1:]\<close> never raises.
\<close>

fun translate_query_error :: "exn \<Rightarrow> string \<Rightarrow> exn + exn" where
  "translate_query_error (Client cls args) query =
    (if cls = Client_InterfaceError \<and> args = [] then Inl IndexError
     else if cls = Client_InterfaceError \<and> hd args = StrV empty_detail then
       Inr (Errors LostConnectionError
              (StrV ''Server connection lost due to an interface error.'' # tl args))
     else if cls = Client_OperationalError \<and> args = [] then Inl IndexError
     else if cls = Client_OperationalError \<and> hd args \<in> fst ` set disconnect_codes then
       Inr (Errors LostConnectionError
              (StrV (the (map_of disconnect_codes (hd args))) # tl args))
     else if cls = Client_OperationalError \<and> hd args \<in> {IntV 1044, IntV 1142} then
       (if length args < 2 then Inl IndexError
        else Inr (Errors AccessError [StrV ''Insufficient privileges.'', args ! 1, StrV query]))
     else if cls = Client_IntegrityError \<and> args = [] then Inl IndexError
     else if cls = Client_IntegrityError \<and> hd args = IntV 1062 then
       Inr (Errors DuplicateError (tl args))
     else if cls = Client_IntegrityError \<and> hd args = IntV 1452 then
       Inr (Errors IntegrityError (tl args))
     else if cls = Client_ProgrammingError \<and> args = [] then Inl IndexError
     else if cls = Client_ProgrammingError \<and> hd args = IntV 1064 then
       (if length args < 2 then Inl IndexError
        else Inr (Errors QuerySyntaxError [args ! 1, StrV query]))
     else if cls = Client_ProgrammingError \<and> hd args = IntV 1146 then
       (if length args < 2 then Inl IndexError
        else Inr (Errors MissingTableError [args ! 1, StrV query]))
     else if cls = Client_InternalError \<and> args = [] then Inl IndexError
     else if cls = Client_InternalError \<and> hd args = IntV 1364 then
       Inr (Errors MissingAttributeError (tl args))
     else if cls = Client_InternalError \<and> hd args = IntV 1054 then
       Inr (Errors UnknownAttributeError (tl args))
     else Inr (Client cls args))"
| "translate_query_error client_error query = Inr client_error"

text \<open>
  The translation table as the specification words it, for comparison with the function:
  the kind of error each condition yields. The numeric codes are the ones of the source
  (2006 and 2013: connection timed out, server connection lost; 1044 and 1142:
  insufficient privileges; 1062: duplicate key; 1452: foreign-key violation; 1064: SQL
  syntax; 1146: unknown table; 1364 and 1054: the two column codes).
\<close>

datatype kind =
    LostConnection | AccessDenied | DuplicateEntry | IntegrityViolation | QuerySyntax
  | MissingTable | MissingAttribute | UnknownAttribute | PassThrough

definition translation_table :: "client_err \<Rightarrow> pyval \<Rightarrow> kind" where
  "translation_table cls code =
    (if cls = Client_InterfaceError \<and> code = StrV empty_detail then LostConnection
     else if cls = Client_OperationalError \<and> code \<in> {IntV 2006, IntV 2013} then LostConnection
     else if cls = Client_OperationalError \<and> code \<in> {IntV 1044, IntV 1142} then AccessDenied
     else if cls = Client_IntegrityError \<and> code = IntV 1062 then DuplicateEntry
     else if cls = Client_IntegrityError \<and> code = IntV 1452 then IntegrityViolation
     else if cls = Client_ProgrammingError \<and> code = IntV 1064 then QuerySyntax
     else if cls = Client_ProgrammingError \<and> code = IntV 1146 then MissingTable
     else if cls = Client_InternalError \<and> code = IntV 1364 then MissingAttribute
     else if cls = Client_InternalError \<and> code = IntV 1054 then UnknownAttribute
     else PassThrough)"

text \<open>The kind of a returned exception: a taxonomy class, or none for any other exception.\<close>

fun kind_of :: "exn \<Rightarrow> kind" where
  "kind_of (Errors LostConnectionError a) = LostConnection"
| "kind_of (Errors AccessError a) = AccessDenied"
| "kind_of (Errors DuplicateError a) = DuplicateEntry"
| "kind_of (Errors IntegrityError a) = IntegrityViolation"
| "kind_of (Errors QuerySyntaxError a) = QuerySyntax"
| "kind_of (Errors MissingTableError a) = MissingTable"
| "kind_of (Errors MissingAttributeError a) = MissingAttribute"
| "kind_of (Errors UnknownAttributeError a) = UnknownAttribute"
| "kind_of e = PassThrough"

text \<open>
  The elements of \<^verbatim>\<open>args\<close> that the translation reads are there: the first one, and the
  second one (the message) for the three kinds that are built from \<^verbatim>\<open>args[1]\<close>.
\<close>

definition args_present :: "client_err \<Rightarrow> pyval list \<Rightarrow> bool" where
  "args_present cls args =
    (args \<noteq> [] \<and>
     (translation_table cls (hd args) \<in> {AccessDenied, QuerySyntax, MissingTable}
        \<longrightarrow> 2 \<le> length args))"

text \<open>
  The drivers are no part of the sources. The errors they raise carry in \<^verbatim>\<open>args\<close> an
  error number followed by a message, which are the \<^verbatim>\<open>args[0]\<close> the source compares
  with its codes and the \<^verbatim>\<open>args[1]\<close> it passes on, or a message alone, which is the
  \<^verbatim>\<open>args[0]\<close> the source compares with the string \<^verbatim>\<open>(0, '')\<close>.
\<close>

fun driver_args :: "pyval list \<Rightarrow> bool" where
  "driver_args (IntV code # StrV message # rest) = True"
| "driver_args [StrV message] = True"
| "driver_args args = False"

section \<open>The connection\<close>

text \<open>
  The two drivers are outside the program. What they answer is a parameter of the model:
  \<open>driver\<close> gives the reply to each call the program makes to a driver (opening a
  connection, \<^verbatim>\<open>cursor.execute\<close>, \<^verbatim>\<open>ping\<close>), in the order of the calls, and \<open>calls\<close>
  counts the calls made so far. A reply is a normal return or a raised exception.
  \<^verbatim>\<open>cursor()\<close>, \<^verbatim>\<open>close()\<close>, \<^verbatim>\<open>autocommit(True)\<close> and the flush subprocess are taken to
  return; printing, logging and warnings are left out.
\<close>

datatype reply = Ok | Raises exn

text \<open>
  What the program did to the drivers, in order: it opened the physical handle \<open>h\<close>,
  closed it, or called \<^verbatim>\<open>execute\<close> with a statement on a cursor of handle \<open>h\<close>.
\<close>

datatype event = Connected nat | Closed nat | Executed nat string

text \<open>A cursor: the handle it was opened on and the statement it executed.\<close>

datatype cursor = Cursor nat string

text \<open>
  The attributes of a \<^verbatim>\<open>Connection\<close> that the modelled methods read or write.
  \<open>sqlite\<close> is \<^verbatim>\<open>conn_info['port'] == 'sqlite'\<close>; \<open>reconnect_default\<close> is
  \<^verbatim>\<open>config['database.reconnect']\<close>; \<open>p_conn\<close> is \<^verbatim>\<open>_conn\<close> (\<^verbatim>\<open>None\<close>, or a physical
  handle, named by a number); \<open>p_in_transaction\<close> is \<^verbatim>\<open>_in_transaction\<close>, which does
  not exist (\<open>None\<close>) until the constructor assigns it; \<open>schemas\<close> holds the keys of the
  \<^verbatim>\<open>schemas\<close> dictionary in insertion order; \<open>handles\<close> counts the handles opened so
  far, so that it names the next one.
\<close>

record connection =
  sqlite :: bool
  reconnect_default :: bool
  p_conn :: "nat option"
  p_in_transaction :: "bool option"
  schemas :: "string list"
  handles :: nat
  events :: "event list"
  driver :: "nat \<Rightarrow> reply"
  calls :: nat

definition driver_call :: "connection \<Rightarrow> reply \<times> connection" where
  "driver_call c = (driver c (calls c), c\<lparr>calls := Suc (calls c)\<rparr>)"

definition open_handle :: "connection \<Rightarrow> connection" where
  "open_handle c =
     c\<lparr>p_conn := Some (handles c), handles := Suc (handles c),
       events := events c @ [Connected (handles c)]\<rparr>"

text \<open>\<^verbatim>\<open>client_errors = (client.err.InterfaceError, client.err.DatabaseError)\<close>.\<close>

fun client_errors :: "exn \<Rightarrow> bool" where
  "client_errors (Client cls a) = (cls \<noteq> Client_Error)"
| "client_errors e = False"

text \<open>
  \<^verbatim>\<open>_execute_query\<close>: the statement goes to the cursor of handle \<open>h\<close>; a driver error
  of \<^verbatim>\<open>client_errors\<close> is replaced by its translation (or by the error the translation
  raises), any other exception propagates as it is.
\<close>

definition execute_query :: "connection \<Rightarrow> nat \<Rightarrow> string \<Rightarrow> (exn + unit) \<times> connection" where
  "execute_query c h query =
    (case driver_call (c\<lparr>events := events c @ [Executed h query]\<rparr>) of
       (Ok, c1) \<Rightarrow> (Inr (), c1)
     | (Raises err, c1) \<Rightarrow>
         (if client_errors err then
            (case translate_query_error err query of
               Inl e \<Rightarrow> (Inl e, c1)
             | Inr e \<Rightarrow> (Inl e, c1))
          else (Inl err, c1)))"

text \<open>\<^verbatim>\<open>except (errors.LostConnectionError, sqlite3.DatabaseError)\<close> in \<^verbatim>\<open>query\<close>.\<close>

fun lost_or_database_error :: "exn \<Rightarrow> bool" where
  "lost_or_database_error (Errors k a) = (k = LostConnectionError)"
| "lost_or_database_error (Sqlite3 cls a) =
     (cls \<noteq> Sqlite3_Error \<and> cls \<noteq> Sqlite3_InterfaceError)"
| "lost_or_database_error e = False"

text \<open>
  The three \<^verbatim>\<open>isinstance\<close> tests of the embedded branch of \<^verbatim>\<open>query\<close>, whose errors
  are raised again.
\<close>

fun reraised :: "exn \<Rightarrow> bool" where
  "reraised (Sqlite3 cls a) =
     (cls = Sqlite3_OperationalError \<or> cls = Sqlite3_IntegrityError \<or>
      cls = Sqlite3_ProgrammingError)"
| "reraised e = False"

text \<open>
  The option \<^verbatim>\<open>reconnect\<close> as \<^verbatim>\<open>query\<close> resolves it: \<^verbatim>\<open>None\<close> stands for the
  configured default.
\<close>

definition resolved :: "connection \<Rightarrow> bool option \<Rightarrow> bool" where
  "resolved c reconnect = (case reconnect of None \<Rightarrow> reconnect_default c | Some b \<Rightarrow> b)"

definition lost_in_transaction :: exn where
  "lost_in_transaction =
     Errors LostConnectionError [StrV ''Connection was lost during a transaction.'']"

text \<open>
  \<^verbatim>\<open>query\<close>, \<^verbatim>\<open>connect\<close> and \<^verbatim>\<open>cancel_transaction\<close> call one another: \<^verbatim>\<open>query\<close> reconnects
  and cancels, \<^verbatim>\<open>connect\<close> (embedded backend) and \<^verbatim>\<open>cancel_transaction\<close> run a query.
  With a driver that keeps failing the calls nest until Python's interpreter raises
  \<^verbatim>\<open>RecursionError\<close>; the first argument bounds the nesting, and at zero the call raises
  that error. Every method returns its result, or the exception it raises, and the
  connection as it left it.

  \<^verbatim>\<open>query\<close>: \<open>reconnect\<close> is \<open>None\<close> for the default of the configuration. The cursor
  is opened on the current handle (\<^verbatim>\<open>AttributeError\<close> when \<^verbatim>\<open>_conn\<close> is \<^verbatim>\<open>None\<close>).
\<close>

fun query :: "nat \<Rightarrow> connection \<Rightarrow> string \<Rightarrow> bool option \<Rightarrow> (exn + cursor) \<times> connection"
  and connect :: "nat \<Rightarrow> connection \<Rightarrow> (exn + unit) \<times> connection"
  and cancel_transaction :: "nat \<Rightarrow> connection \<Rightarrow> (exn + unit) \<times> connection"
where
  "query 0 c q reconnect = (Inl RecursionError, c)"
| "query (Suc d) c q reconnect =
    (case p_conn c of
       None \<Rightarrow> (Inl AttributeError, c)
     | Some h \<Rightarrow>
        (case execute_query c h q of
           (Inr u, c1) \<Rightarrow> (Inr (Cursor h q), c1)
         | (Inl e, c1) \<Rightarrow>
            if \<not> lost_or_database_error e then (Inl e, c1)
            else if \<not> sqlite c1 then
              (if \<not> resolved c1 reconnect then (Inl e, c1)
               else
                 (case connect d c1 of
                    (Inl e2, c2) \<Rightarrow> (Inl e2, c2)
                  | (Inr u, c2) \<Rightarrow>
                     (case p_in_transaction c2 of
                        None \<Rightarrow> (Inl AttributeError, c2)
                      | Some True \<Rightarrow>
                         (case cancel_transaction d c2 of
                            (Inl e3, c3) \<Rightarrow> (Inl e3, c3)
                          | (Inr u, c3) \<Rightarrow> (Inl lost_in_transaction, c3))
                      | Some False \<Rightarrow>
                         (case p_conn c2 of
                            None \<Rightarrow> (Inl AttributeError, c2)
                          | Some h2 \<Rightarrow>
                             (case execute_query c2 h2 q of
                                (Inl e4, c4) \<Rightarrow> (Inl e4, c4)
                              | (Inr u, c4) \<Rightarrow> (Inr (Cursor h2 q), c4))))))
            else
              (if reraised e then (Inl e, c1)
               else if \<not> resolved c1 reconnect then (Inl e, c1)
               else
                 (case p_in_transaction c1 of
                    None \<Rightarrow> (Inl AttributeError, c1)
                  | Some True \<Rightarrow>
                     (case cancel_transaction d c1 of
                        (Inl e3, c3) \<Rightarrow> (Inl e3, c3)
                      | (Inr u, c3) \<Rightarrow> (Inl lost_in_transaction, c3))
                  | Some False \<Rightarrow>
                     (case connect d (c1\<lparr>events := events c1 @ [Closed h]\<rparr>) of
                        (Inl e2, c2) \<Rightarrow> (Inl e2, c2)
                      | (Inr u, c2) \<Rightarrow>
                         (case p_conn c2 of
                            None \<Rightarrow> (Inl AttributeError, c2)
                          | Some h2 \<Rightarrow>
                             (case execute_query c2 h2 q of
                                (Inl e4, c4) \<Rightarrow> (Inl e4, c4)
                              | (Inr u, c4) \<Rightarrow> (Inr (Cursor h2 q), c4))))))))"
| "connect 0 c = (Inl RecursionError, c)"
| "connect (Suc d) c =
    (if \<not> sqlite c then
       (case driver_call c of
          (Ok, c1) \<Rightarrow> (Inr (), open_handle c1)
        | (Raises (Client Client_InternalError a), c1) \<Rightarrow>
            (case driver_call c1 of
               (Ok, c2) \<Rightarrow> (Inr (), open_handle c2)
             | (Raises e, c2) \<Rightarrow> (Inl e, c2))
        | (Raises e, c1) \<Rightarrow> (Inl e, c1))
     else
       (case driver_call c of
          (Ok, c1) \<Rightarrow>
            (case query d (open_handle c1) ''PRAGMA foreign_keys=1'' None of
               (Inl e, c2) \<Rightarrow> (Inl e, c2)
             | (Inr cur, c2) \<Rightarrow> (Inr (), c2))
        | (Raises e, c1) \<Rightarrow> (Inl e, c1)))"
| "cancel_transaction 0 c = (Inl RecursionError, c)"
| "cancel_transaction (Suc d) c =
    (case query d c ''ROLLBACK'' None of
       (Inr cur, c1) \<Rightarrow> (Inr (), c1\<lparr>p_in_transaction := Some False\<rparr>)
     | (Inl (Sqlite3 Sqlite3_OperationalError a), c1) \<Rightarrow>
         (Inr (), c1\<lparr>p_in_transaction := Some False\<rparr>)
     | (Inl e, c1) \<Rightarrow> (Inl e, c1))"

fun commit_transaction :: "nat \<Rightarrow> connection \<Rightarrow> (exn + unit) \<times> connection" where
  "commit_transaction 0 c = (Inl RecursionError, c)"
| "commit_transaction (Suc d) c =
    (case query d c ''COMMIT'' None of
       (Inr cur, c1) \<Rightarrow> (Inr (), c1\<lparr>p_in_transaction := Some False\<rparr>)
     | (Inl (Sqlite3 Sqlite3_OperationalError a), c1) \<Rightarrow>
         (Inr (), c1\<lparr>p_in_transaction := Some False\<rparr>)
     | (Inl e, c1) \<Rightarrow> (Inl e, c1))"

text \<open>
  The errors that \<^verbatim>\<open>query\<close> treats as a lost connection, for the properties below: the
  driver raised \<open>err\<close> for the statement \<open>q\<close>, and \<open>e\<close> is what reaches the handler
  of \<^verbatim>\<open>query\<close>. On the networked backend \<open>e\<close> is the translation of \<open>err\<close>, a
  \<^verbatim>\<open>LostConnectionError\<close>; on the embedded backend it is \<open>err\<close> itself, a
  \<^verbatim>\<open>sqlite3.DatabaseError\<close> that is none of the three classes raised again.
\<close>

definition connection_loss :: "connection \<Rightarrow> exn \<Rightarrow> string \<Rightarrow> exn \<Rightarrow> bool" where
  "connection_loss c err q e =
    (if sqlite c then (\<exists>cls a. err = Sqlite3 cls a) \<and> e = err \<and> lost_or_database_error e \<and> \<not> reraised e
     else client_errors err \<and> translate_query_error err q = Inr e \<and>
          (\<exists>a. e = Errors LostConnectionError a))"

text \<open>
  \<^verbatim>\<open>ping\<close>: \<^verbatim>\<open>self._conn.ping(reconnect=False)\<close>. Neither \<^verbatim>\<open>None\<close> nor a handle of
  \<^verbatim>\<open>sqlite3\<close> has a \<^verbatim>\<open>ping\<close> attribute; a handle of the networked driver answers.
\<close>

definition ping :: "connection \<Rightarrow> (exn + unit) \<times> connection" where
  "ping c =
    (case p_conn c of
       None \<Rightarrow> (Inl AttributeError, c)
     | Some h \<Rightarrow>
        (if sqlite c then (Inl AttributeError, c)
         else (case driver_call c of
                 (Ok, c1) \<Rightarrow> (Inr (), c1)
               | (Raises e, c1) \<Rightarrow> (Inl e, c1))))"

text \<open>
  \<^verbatim>\<open>is_connected\<close>: the \<^verbatim>\<open>except AttributeError\<close> clause answers by the backend, any
  other exception of the ping propagates, and the \<^verbatim>\<open>else\<close> clause of the \<^verbatim>\<open>try\<close>, which
  runs when the ping returned, returns \<^verbatim>\<open>False\<close>; the final \<^verbatim>\<open>return True\<close> is never
  reached.
\<close>

definition is_connected :: "connection \<Rightarrow> (exn + bool) \<times> connection" where
  "is_connected c =
    (case ping c of
       (Inl AttributeError, c1) \<Rightarrow> (if sqlite c1 then (Inr True, c1) else (Inr False, c1))
     | (Inl e, c1) \<Rightarrow> (Inl e, c1)
     | (Inr u, c1) \<Rightarrow> (Inr False, c1))"

text \<open>
  The property \<^verbatim>\<open>in_transaction\<close>: \<^verbatim>\<open>self._in_transaction and self.is_connected\<close> is
  stored back; \<^verbatim>\<open>and\<close> evaluates its second operand only when the first is true.
\<close>

definition in_transaction :: "connection \<Rightarrow> (exn + bool) \<times> connection" where
  "in_transaction c =
    (case p_in_transaction c of
       None \<Rightarrow> (Inl AttributeError, c)
     | Some False \<Rightarrow> (Inr False, c\<lparr>p_in_transaction := Some False\<rparr>)
     | Some True \<Rightarrow>
        (case is_connected c of
           (Inl e, c1) \<Rightarrow> (Inl e, c1)
         | (Inr b, c1) \<Rightarrow> (Inr b, c1\<lparr>p_in_transaction := Some b\<rparr>)))"

definition nested_error :: exn where
  "nested_error = Errors DataJointError [StrV ''Nested connections are not supported.'']"

fun start_transaction :: "nat \<Rightarrow> connection \<Rightarrow> (exn + unit) \<times> connection" where
  "start_transaction 0 c = (Inl RecursionError, c)"
| "start_transaction (Suc d) c =
    (case in_transaction c of
       (Inl e, c1) \<Rightarrow> (Inl e, c1)
     | (Inr True, c1) \<Rightarrow> (Inl nested_error, c1)
     | (Inr False, c1) \<Rightarrow>
        (case query d c1
                (if sqlite c1 then ''BEGIN TRANSACTION''
                 else ''START TRANSACTION WITH CONSISTENT SNAPSHOT'') None of
           (Inl e, c2) \<Rightarrow> (Inl e, c2)
         | (Inr cur, c2) \<Rightarrow> (Inr (), c2\<lparr>p_in_transaction := Some True\<rparr>)))"

text \<open>
  The constructor, from the point where \<^verbatim>\<open>conn_info\<close> is assembled: \<^verbatim>\<open>_conn = None\<close>,
  \<^verbatim>\<open>connect()\<close>, the check of \<^verbatim>\<open>is_connected\<close> (on the networked backend followed by the
  query of the connection id), and then the assignments of \<^verbatim>\<open>_in_transaction\<close> and
  \<^verbatim>\<open>schemas\<close>. The arguments are the backend, the configured reconnect default and the
  driver's replies.
\<close>

definition connection_failed :: exn where
  "connection_failed = Errors ConnectionError [StrV ''Connection failed.'']"

fun Connection :: "nat \<Rightarrow> bool \<Rightarrow> bool \<Rightarrow> (nat \<Rightarrow> reply) \<Rightarrow> (exn + unit) \<times> connection" where
  "Connection 0 is_sqlite reconnect_cfg replies =
     (Inl RecursionError,
      \<lparr>sqlite = is_sqlite, reconnect_default = reconnect_cfg, p_conn = None,
       p_in_transaction = None, schemas = [], handles = 0, events = [],
       driver = replies, calls = 0\<rparr>)"
| "Connection (Suc d) is_sqlite reconnect_cfg replies =
    (case connect d
            \<lparr>sqlite = is_sqlite, reconnect_default = reconnect_cfg, p_conn = None,
             p_in_transaction = None, schemas = [], handles = 0, events = [],
             driver = replies, calls = 0\<rparr> of
       (Inl e, c1) \<Rightarrow> (Inl e, c1)
     | (Inr u, c1) \<Rightarrow>
        (case is_connected c1 of
           (Inl e, c2) \<Rightarrow> (Inl e, c2)
         | (Inr False, c2) \<Rightarrow> (Inl connection_failed, c2)
         | (Inr True, c2) \<Rightarrow>
            (if \<not> sqlite c2 then
               (case query d c2 ''SELECT connection_id()'' None of
                  (Inl e, c3) \<Rightarrow> (Inl e, c3)
                | (Inr cur, c3) \<Rightarrow> (Inr (), c3\<lparr>p_in_transaction := Some False, schemas := []\<rparr>))
             else (Inr (), c2\<lparr>p_in_transaction := Some False, schemas := []\<rparr>))))"

text \<open>\<^verbatim>\<open>register\<close>: a new key goes to the end of the dictionary, a known one keeps its place.\<close>

definition register :: "connection \<Rightarrow> string \<Rightarrow> connection" where
  "register c database =
     (if database \<in> set (schemas c) then c else c\<lparr>schemas := schemas c @ [database]\<rparr>)"

text \<open>
  Connections and drivers for the examples below: a constructed connection on its first
  handle, the error the networked driver raises when the server has gone away, the one
  it raises when the server refuses the connection, two errors of the embedded engine,
  and a driver whose first replies are given and that answers normally after them.
\<close>

definition established :: "bool \<Rightarrow> bool \<Rightarrow> (nat \<Rightarrow> reply) \<Rightarrow> connection" where
  "established is_sqlite in_trans replies =
     \<lparr>sqlite = is_sqlite, reconnect_default = True, p_conn = Some 0,
      p_in_transaction = Some in_trans, schemas = [], handles = 1, events = [],
      driver = replies, calls = 0\<rparr>"

definition gone_away :: exn where
  "gone_away = Client Client_OperationalError [IntV 2006, StrV ''MySQL server has gone away'']"

definition refused :: exn where
  "refused = Client Client_OperationalError [IntV 2003, StrV ''Connection refused'']"

definition malformed :: exn where
  "malformed = Sqlite3 Sqlite3_DatabaseError [StrV ''database disk image is malformed'']"

definition locked :: exn where
  "locked = Sqlite3 Sqlite3_OperationalError [StrV ''database is locked'']"

definition no_transaction :: exn where
  "no_transaction =
     Sqlite3 Sqlite3_OperationalError [StrV ''cannot rollback - no transaction is active'']"

fun replies_then_ok :: "reply list \<Rightarrow> nat \<Rightarrow> reply" where
  "replies_then_ok [] n = Ok"
| "replies_then_ok (r # rs) 0 = r"
| "replies_then_ok (r # rs) (Suc n) = replies_then_ok rs n"

section \<open>The dependency graph\<close>

subsection \<open>The graph of \<^verbatim>\<open>networkx\<close>\<close>

text \<open>
  The attributes \<^verbatim>\<open>load\<close> stores on an edge: the dictionary \<^verbatim>\<open>props\<close>.
\<close>

record props =
  primary :: bool
  attr_map :: "(string \<times> string) list"
  aliased :: bool
  multi :: bool

text \<open>
  \<^verbatim>\<open>Dependencies\<close> is a \<^verbatim>\<open>networkx.DiGraph\<close> with an alias counter. The library keeps
  a dictionary of nodes with their attributes and a dictionary of edges with theirs;
  Python's dictionaries keep insertion order, so both are association lists. The only
  node attribute is \<^verbatim>\<open>primary_key\<close> (\<open>None\<close>: the node has no such attribute), a set of
  column names. \<open>node_alias_count\<close> is the next value of the counter
  \<^verbatim>\<open>itertools.count()\<close>. The edges are kept in one list in insertion order.

  The library is not part of the sources; its operations are modelled from its
  documentation. \<^verbatim>\<open>add_node\<close> adds the node or updates the attributes it has;
  \<^verbatim>\<open>add_edge\<close> adds the end points that are missing, without attributes, and sets the
  edge's attributes (every call of \<^verbatim>\<open>load\<close> passes all four); \<^verbatim>\<open>clear\<close> removes all
  nodes and edges.
\<close>

record dependencies =
  nodes :: "(string \<times> string set option) list"
  edges :: "((string \<times> string) \<times> props) list"
  node_alias_count :: nat

definition node_names :: "dependencies \<Rightarrow> string set" where
  "node_names g = fst ` set (nodes g)"

definition edge_rel :: "dependencies \<Rightarrow> (string \<times> string) set" where
  "edge_rel g = fst ` set (edges g)"

definition add_node :: "string \<Rightarrow> string set option \<Rightarrow> dependencies \<Rightarrow> dependencies" where
  "add_node n attr g =
    (case map_of (nodes g) n of
       None \<Rightarrow> g\<lparr>nodes := nodes g @ [(n, attr)]\<rparr>
     | Some old \<Rightarrow>
         g\<lparr>nodes := AList.update n (case attr of None \<Rightarrow> old | Some pk \<Rightarrow> Some pk) (nodes g)\<rparr>)"

definition ensure_node :: "string \<Rightarrow> dependencies \<Rightarrow> dependencies" where
  "ensure_node u g = (if u \<in> node_names g then g else g\<lparr>nodes := nodes g @ [(u, None)]\<rparr>)"

definition add_edge :: "string \<Rightarrow> string \<Rightarrow> props \<Rightarrow> dependencies \<Rightarrow> dependencies" where
  "add_edge u v p g =
    (let g2 = ensure_node v (ensure_node u g)
     in g2\<lparr>edges := AList.update (u, v) p (edges g2)\<rparr>)"

definition clear :: "dependencies \<Rightarrow> dependencies" where
  "clear g = g\<lparr>nodes := [], edges := []\<rparr>"

text \<open>The end points of every edge are nodes: the library's graphs are of this kind.\<close>

definition wf_graph :: "dependencies \<Rightarrow> bool" where
  "wf_graph g = (\<forall>(u, v) \<in> edge_rel g. u \<in> node_names g \<and> v \<in> node_names g)"

text \<open>
  \<^verbatim>\<open>Dependencies(connection)\<close>: an empty graph and a counter that starts at zero.
\<close>

definition Dependencies :: dependencies where
  "Dependencies = \<lparr>nodes = [], edges = [], node_alias_count = 0\<rparr>"

subsection \<open>Names\<close>

text \<open>\<^verbatim>\<open>sep.join(xs)\<close>.\<close>

fun join :: "string \<Rightarrow> string list \<Rightarrow> string" where
  "join sep [] = []"
| "join sep [x] = x"
| "join sep (x # y # ys) = x @ sep @ join sep (y # ys)"

text \<open>
  A full table name: a schema and a table name, each between backticks, with a dot
  between them. The embedded branch formats it in Python, with all the registered
  schema names joined by \<^verbatim>\<open>','\<close> as the schema; the networked branch lets the server
  build it with \<^verbatim>\<open>concat\<close>.
\<close>

definition qualified_name :: "string \<Rightarrow> string \<Rightarrow> string" where
  "qualified_name schema table_name = ''`'' @ schema @ ''`.`'' @ table_name @ ''`''"

definition is_qualified :: "string \<Rightarrow> bool" where
  "is_qualified n = (\<exists>schema table_name. n = qualified_name schema table_name)"

definition joined_schemas :: "connection \<Rightarrow> string" where
  "joined_schemas c = join [CHR 0x27, CHR '','', CHR 0x27] (schemas c)"

text \<open>\<^verbatim>\<open>'%d' % n\<close> for a natural number: its decimal digits.\<close>

definition digit :: "nat \<Rightarrow> char" where
  "digit n = ''0123456789'' ! n"

function digits :: "nat \<Rightarrow> string" where
  "digits n = (if n < 10 then [digit n] else digits (n div 10) @ [digit (n mod 10)])"
  by pat_completeness auto
termination
  by (relation "measure id") auto

declare digits.simps [simp del]

subsection \<open>What the introspection queries return\<close>

text \<open>
  The rows the four queries of \<^verbatim>\<open>load\<close> return are parameters of the model, two per
  backend. Embedded backend: \<open>tablesAndKeys\<close> holds the pairs of a table name and one
  of its primary-key columns, \<open>fkInfos\<close> the rows (referencing table, referenced table,
  column, referenced column) in the order of the query. Networked backend:
  \<open>primary_keys\<close> holds (schema, table, column) and \<open>foreign_keys\<close> the rows of
  \<^verbatim>\<open>information_schema.key_column_usage\<close>, from which the server computes the two full
  table names.
\<close>

datatype key_column_usage =
  KeyColumnUsage (kcu_constraint_name: string) (kcu_table_schema: string)
    (kcu_table_name: string) (kcu_referenced_table_schema: string)
    (kcu_referenced_table_name: string) (kcu_column_name: string)
    (kcu_referenced_column_name: string)

record introspection =
  tablesAndKeys :: "(string \<times> string) list"
  fkInfos :: "(string \<times> string \<times> string \<times> string) list"
  primary_keys :: "(string \<times> string \<times> string) list"
  foreign_keys :: "key_column_usage list"

text \<open>A row of either foreign-key query as the dictionary the loop reads.\<close>

record fk_row =
  constraint_name :: string
  referencing_table :: string
  referenced_table :: string
  column_name :: string
  referenced_column_name :: string

text \<open>
  The embedded branch overwrites three entries of each row: the constraint name is the
  constant \<^verbatim>\<open>'FOREIGN'\<close>, the two table names are formatted.
\<close>

definition sqlite_fk_row :: "connection \<Rightarrow> string \<times> string \<times> string \<times> string \<Rightarrow> fk_row" where
  "sqlite_fk_row c fkInfo =
    (case fkInfo of (referencing, referenced, col, referenced_col) \<Rightarrow>
      \<lparr>constraint_name = ''FOREIGN'',
       referencing_table = qualified_name (joined_schemas c) referencing,
       referenced_table = qualified_name (joined_schemas c) referenced,
       column_name = col,
       referenced_column_name = referenced_col\<rparr>)"

definition mysql_fk_row :: "key_column_usage \<Rightarrow> fk_row" where
  "mysql_fk_row k =
    \<lparr>constraint_name = kcu_constraint_name k,
     referencing_table = qualified_name (kcu_table_schema k) (kcu_table_name k),
     referenced_table =
       qualified_name (kcu_referenced_table_schema k) (kcu_referenced_table_name k),
     column_name = kcu_column_name k,
     referenced_column_name = kcu_referenced_column_name k\<rparr>"

subsection \<open>\<^verbatim>\<open>load\<close>\<close>

text \<open>
  \<^verbatim>\<open>pks\<close> is a \<^verbatim>\<open>defaultdict(set)\<close>: reading a missing key gives the empty set.
\<close>

type_synonym pks = "(string \<times> string set) list"

definition pks_get :: "pks \<Rightarrow> string \<Rightarrow> string set" where
  "pks_get pks tab = (case map_of pks tab of None \<Rightarrow> {} | Some s \<Rightarrow> s)"

definition pks_add :: "string \<Rightarrow> string \<Rightarrow> pks \<Rightarrow> pks" where
  "pks_add tab col pks = AList.update tab (insert col (pks_get pks tab)) pks"

text \<open>
  An entry of \<^verbatim>\<open>fks\<close>: the two tables and the ordered \<^verbatim>\<open>attr_map\<close> from a referencing
  column to the referenced one. \<^verbatim>\<open>fks\<close> is keyed by the constraint name and the two
  tables; a new entry starts with an empty \<^verbatim>\<open>attr_map\<close>, and its tables are set by the
  row that creates it.
\<close>

record foreign_key =
  fk_referencing_table :: string
  fk_referenced_table :: string
  fk_attr_map :: "(string \<times> string) list"

type_synonym fks = "((string \<times> string \<times> string) \<times> foreign_key) list"

definition fks_add :: "fk_row \<Rightarrow> fks \<Rightarrow> fks" where
  "fks_add r fks =
    (let key = (constraint_name r, referencing_table r, referenced_table r);
         d = (case map_of fks key of
                None \<Rightarrow> \<lparr>fk_referencing_table = [], fk_referenced_table = [], fk_attr_map = []\<rparr>
              | Some d \<Rightarrow> d)
     in AList.update key
          \<lparr>fk_referencing_table = referencing_table r,
           fk_referenced_table = referenced_table r,
           fk_attr_map = AList.update (column_name r) (referenced_column_name r) (fk_attr_map d)\<rparr>
          fks)"

text \<open>Every entry of \<^verbatim>\<open>fks\<close> names two tables by their full names.\<close>

definition fks_qualified :: "fks \<Rightarrow> bool" where
  "fks_qualified fks =
     (\<forall>fk \<in> snd ` set fks.
        is_qualified (fk_referencing_table fk) \<and> is_qualified (fk_referenced_table fk))"

text \<open>The dictionary \<^verbatim>\<open>props\<close> of the loop over the foreign keys.\<close>

definition edge_props :: "pks \<Rightarrow> foreign_key \<Rightarrow> props" where
  "edge_props pks fk =
    \<lparr>primary = (set (map fst (fk_attr_map fk)) \<subseteq> pks_get pks (fk_referencing_table fk)),
     attr_map = fk_attr_map fk,
     aliased = list_ex (\<lambda>(k, v). k \<noteq> v) (fk_attr_map fk),
     multi = (set (map fst (fk_attr_map fk)) \<noteq> pks_get pks (fk_referencing_table fk))\<rparr>"

text \<open>The body of the loop: one direct edge, or an alias node and two edges.\<close>

definition add_foreign_key :: "pks \<Rightarrow> foreign_key \<Rightarrow> dependencies \<Rightarrow> dependencies" where
  "add_foreign_key pks fk g =
    (if \<not> aliased (edge_props pks fk) then
       add_edge (fk_referenced_table fk) (fk_referencing_table fk) (edge_props pks fk) g
     else
       add_edge (digits (node_alias_count g)) (fk_referencing_table fk) (edge_props pks fk)
         (add_edge (fk_referenced_table fk) (digits (node_alias_count g)) (edge_props pks fk)
            (add_node (digits (node_alias_count g)) None
               (g\<lparr>node_alias_count := Suc (node_alias_count g)\<rparr>))))"

definition load_pks :: "connection \<Rightarrow> introspection \<Rightarrow> pks" where
  "load_pks c db =
    (if sqlite c then
       fold (\<lambda>(tbl, col). pks_add (qualified_name (joined_schemas c) tbl) col)
         (tablesAndKeys db) []
     else
       fold (\<lambda>(table_schema, table_name, col). pks_add (qualified_name table_schema table_name) col)
         (primary_keys db) [])"

definition load_fks :: "connection \<Rightarrow> introspection \<Rightarrow> fks" where
  "load_fks c db =
    (if sqlite c then fold fks_add (map (sqlite_fk_row c) (fkInfos db)) []
     else fold fks_add (map mysql_fk_row (foreign_keys db)) [])"

definition too_many_schemas :: exn where
  "too_many_schemas = Exception [StrV ''need to deal with sqlite and multiple schemas...'']"

definition cyclic_error :: exn where
  "cyclic_error = Errors DataJointError [StrV ''DataJoint can only work with acyclic dependencies'']"

text \<open>
  The two loops of \<^verbatim>\<open>load\<close>: one node per key of \<^verbatim>\<open>pks\<close>, then the foreign keys in
  the order of \<^verbatim>\<open>fks.values()\<close>.
\<close>

definition build :: "connection \<Rightarrow> introspection \<Rightarrow> dependencies \<Rightarrow> dependencies" where
  "build c db g =
     fold (add_foreign_key (load_pks c db)) (map snd (load_fks c db))
       (fold (\<lambda>(n, pk). add_node n (Some pk)) (load_pks c db) g)"

text \<open>
  \<^verbatim>\<open>load\<close> returns \<^verbatim>\<open>None\<close> or raises, and leaves the graph as it was at that point.
  \<^verbatim>\<open>nx.is_directed_acyclic_graph\<close> is the library's test that the graph has no directed
  cycle.
\<close>

definition load :: "connection \<Rightarrow> introspection \<Rightarrow> dependencies \<Rightarrow> (exn + unit) \<times> dependencies" where
  "load c db deps =
    (if sqlite c \<and> length (schemas c) > 1 then (Inl too_many_schemas, clear deps)
     else if acyclic (edge_rel (build c db (clear deps))) then (Inr (), build c db (clear deps))
     else (Inl cyclic_error, build c db (clear deps)))"

subsection \<open>Structural queries\<close>

text \<open>
  \<^verbatim>\<open>in_edges(table_name, data=True)\<close>: the edges into the node. For a name that is not a
  node the library takes the argument as a collection of nodes, which for a string are
  its characters.
\<close>

definition nbunch :: "dependencies \<Rightarrow> string \<Rightarrow> string list" where
  "nbunch g name =
    (if name \<in> node_names g then [name]
     else filter (\<lambda>n. n \<in> node_names g) (map (\<lambda>ch. [ch]) name))"

definition in_edges :: "dependencies \<Rightarrow> string \<Rightarrow> ((string \<times> string) \<times> props) list" where
  "in_edges g name =
     concat (map (\<lambda>n. filter (\<lambda>((u, v), p). v = n) (edges g)) (nbunch g name))"

text \<open>\<^verbatim>\<open>parents\<close>: a dictionary from the source of each selected edge to its attributes.\<close>

definition parents :: "dependencies \<Rightarrow> string \<Rightarrow> bool option \<Rightarrow> (string \<times> props) list" where
  "parents g table_name prim =
    fold (\<lambda>((u, v), p). AList.update u p)
      (filter (\<lambda>((u, v), p). prim = None \<or> Some (primary p) = prim) (in_edges g table_name)) []"

text \<open>
  \<^verbatim>\<open>nx.descendants\<close> and \<^verbatim>\<open>nx.ancestors\<close>, from the library's documentation: all nodes
  reachable from the source (from which the source is reachable), the source excluded;
  a source that is not in the graph raises \<^verbatim>\<open>NetworkXError\<close>. \<^verbatim>\<open>subgraph\<close> is the
  subgraph induced on a set of nodes.
\<close>

definition nx_descendants :: "dependencies \<Rightarrow> string \<Rightarrow> exn + string set" where
  "nx_descendants g source =
    (if source \<notin> node_names g then Inl NetworkXError
     else Inr ({v. (source, v) \<in> (edge_rel g)\<^sup>+} - {source}))"

definition nx_ancestors :: "dependencies \<Rightarrow> string \<Rightarrow> exn + string set" where
  "nx_ancestors g source =
    (if source \<notin> node_names g then Inl NetworkXError
     else Inr ({u. (u, source) \<in> (edge_rel g)\<^sup>+} - {source}))"

definition subgraph :: "dependencies \<Rightarrow> string set \<Rightarrow> dependencies" where
  "subgraph g S =
     g\<lparr>nodes := filter (\<lambda>(n, a). n \<in> S) (nodes g),
       edges := filter (\<lambda>((u, v), p). u \<in> S \<and> v \<in> S) (edges g)\<rparr>"

text \<open>
  \<^verbatim>\<open>nx.topological_sort\<close> is a parameter \<open>ts\<close> of the two queries: the order in which
  the library lists the nodes is not fixed by the graph alone. Its documented contract
  is \<open>topological_sort_of\<close>: for a graph without cycle it returns every node once, the
  source of each edge before its target; otherwise it raises \<^verbatim>\<open>NetworkXUnfeasible\<close>.
\<close>

definition before :: "string list \<Rightarrow> string \<Rightarrow> string \<Rightarrow> bool" where
  "before xs u v = (\<exists>i j. i < j \<and> j < length xs \<and> xs ! i = u \<and> xs ! j = v)"

definition topological_sort_of :: "dependencies \<Rightarrow> exn + string list \<Rightarrow> bool" where
  "topological_sort_of g r =
    (if acyclic (edge_rel g) then
       (case r of
          Inl e \<Rightarrow> False
        | Inr xs \<Rightarrow> distinct xs \<and> set xs = node_names g \<and>
                   (\<forall>(u, v) \<in> edge_rel g. before xs u v))
     else r = Inl NetworkXUnfeasible)"

definition descendants ::
  "(dependencies \<Rightarrow> exn + string list) \<Rightarrow> dependencies \<Rightarrow> string \<Rightarrow> exn + string list" where
  "descendants ts g full_table_name =
    (case nx_descendants g full_table_name of
       Inl e \<Rightarrow> Inl e
     | Inr S \<Rightarrow>
        (case ts (subgraph g S) of
           Inl e \<Rightarrow> Inl e
         | Inr xs \<Rightarrow> Inr (full_table_name # xs)))"

definition ancestors ::
  "(dependencies \<Rightarrow> exn + string list) \<Rightarrow> dependencies \<Rightarrow> string \<Rightarrow> exn + string list" where
  "ancestors ts g full_table_name =
    (case nx_ancestors g full_table_name of
       Inl e \<Rightarrow> Inl e
     | Inr S \<Rightarrow>
        (case ts (subgraph g S) of
           Inl e \<Rightarrow> Inl e
         | Inr xs \<Rightarrow> Inr (full_table_name # rev xs)))"

subsection \<open>Renaming alias nodes\<close>

text \<open>
  For comparing the graphs of two loads. \<open>undigits\<close> reads a decimal numeral, the
  inverse of \<open>digits\<close>: a string of digits without a leading zero, or the string
  \<^verbatim>\<open>0\<close>. \<open>relabel k\<close> adds \<open>k\<close> to the number of an alias node and leaves every other
  name as it is; \<open>relabel_graph k\<close> renames the nodes and the end points of the edges of
  a graph in this way and moves its counter by \<open>k\<close>. \<open>alias_nodes\<close> lists the alias
  nodes of a graph.
\<close>

definition digit_value :: "char \<Rightarrow> nat" where
  "digit_value ch = of_char ch - 48"

definition numeral_string :: "string \<Rightarrow> bool" where
  "numeral_string s =
     (s \<noteq> [] \<and> list_all (\<lambda>ch. ch \<in> set ''0123456789'') s \<and>
      (length s = 1 \<or> hd s \<noteq> CHR ''0''))"

definition undigits :: "string \<Rightarrow> nat option" where
  "undigits s =
     (if numeral_string s then Some (fold (\<lambda>ch n. 10 * n + digit_value ch) s 0) else None)"

definition relabel :: "nat \<Rightarrow> string \<Rightarrow> string" where
  "relabel k s = (case undigits s of None \<Rightarrow> s | Some i \<Rightarrow> digits (i + k))"

definition relabel_graph :: "nat \<Rightarrow> dependencies \<Rightarrow> dependencies" where
  "relabel_graph k g =
     \<lparr>nodes = map (\<lambda>(n, a). (relabel k n, a)) (nodes g),
      edges = map (\<lambda>((u, v), p). ((relabel k u, relabel k v), p)) (edges g),
      node_alias_count = node_alias_count g + k\<rparr>"

definition alias_nodes :: "dependencies \<Rightarrow> string list" where
  "alias_nodes g = filter (\<lambda>n. undigits n \<noteq> None) (map fst (nodes g))"

subsection \<open>Example schemas\<close>

text \<open>
  Connections with the schema \<^verbatim>\<open>lab\<close> registered, one per backend, and one of the
  embedded backend with a second schema. Two databases, each given as the rows either
  backend returns for it: in \<open>owner_editor\<close> the table \<^verbatim>\<open>b\<close> has two foreign keys to
  the table \<^verbatim>\<open>a\<close>, through the columns \<^verbatim>\<open>owner_id\<close> and \<^verbatim>\<open>editor_id\<close>; in
  \<open>plain_reference\<close> it has one, through its column \<^verbatim>\<open>a_id\<close>, which is not part of
  its primary key. \<open>plain_graph\<close> is the graph of \<open>plain_reference\<close>, and
  \<open>in_node_order\<close> lists the nodes of a graph as the graph holds them, which for the
  subgraphs of \<open>plain_graph\<close> is a topological order.
\<close>

definition lab_sqlite :: connection where
  "lab_sqlite = register (established True False (\<lambda>n. Ok)) ''lab''"

definition lab_networked :: connection where
  "lab_networked = register (established False False (\<lambda>n. Ok)) ''lab''"

definition two_schemas :: connection where
  "two_schemas = register (register (established True False (\<lambda>n. Ok)) ''lab'') ''shared''"

definition owner_editor :: introspection where
  "owner_editor =
    \<lparr>tablesAndKeys = [(''a'', ''id''), (''b'', ''id'')],
     fkInfos = [(''b'', ''a'', ''owner_id'', ''id''), (''b'', ''a'', ''editor_id'', ''id'')],
     primary_keys = [(''lab'', ''a'', ''id''), (''lab'', ''b'', ''id'')],
     foreign_keys =
       [KeyColumnUsage ''b_ibfk_1'' ''lab'' ''b'' ''lab'' ''a'' ''owner_id'' ''id'',
        KeyColumnUsage ''b_ibfk_2'' ''lab'' ''b'' ''lab'' ''a'' ''editor_id'' ''id'']\<rparr>"

definition plain_graph :: dependencies where
  "plain_graph =
    \<lparr>nodes = [(''`lab`.`a`'', Some {''a_id''}), (''`lab`.`b`'', Some {''id''})],
     edges = [((''`lab`.`a`'', ''`lab`.`b`''),
               \<lparr>primary = False, attr_map = [(''a_id'', ''a_id'')], aliased = False,
                multi = True\<rparr>)],
     node_alias_count = 0\<rparr>"

definition in_node_order :: "dependencies \<Rightarrow> exn + string list" where
  "in_node_order g = Inr (map fst (nodes g))"

definition plain_reference :: introspection where
  "plain_reference =
    \<lparr>tablesAndKeys = [(''a'', ''a_id''), (''b'', ''id'')],
     fkInfos = [(''b'', ''a'', ''a_id'', ''a_id'')],
     primary_keys = [(''lab'', ''a'', ''a_id''), (''lab'', ''b'', ''id'')],
     foreign_keys = [KeyColumnUsage ''b_ibfk_1'' ''lab'' ''b'' ''lab'' ''a'' ''a_id'' ''a_id'']\<rparr>"


section \<open>Verified properties\<close>

subsection \<open>Error translation\<close>

lemma translate_query_error_present:
  assumes "args_present cls args"
  shows "\<exists>r. translate_query_error (Client cls args) q = Inr r \<and>
           kind_of r = translation_table cls (hd args) \<and>
           (translation_table cls (hd args) = PassThrough \<longrightarrow> r = Client cls args)"
  using assms
  by (cases cls) (auto simp: args_present_def translation_table_def disconnect_codes_def)

lemma translate_query_error_other:
  assumes "\<forall>cls args. e \<noteq> Client cls args"
  shows "translate_query_error e q = Inr e"
  using assms by (cases e) auto

lemma driver_args_present: "driver_args args \<Longrightarrow> args_present cls args"
  by (erule driver_args.elims)
     (auto simp: args_present_def translation_table_def)

text \<open>
  The function raises for no error of a driver: what it can raise is the \<^verbatim>\<open>IndexError\<close>
  of reading an \<^verbatim>\<open>args\<close> that no driver builds.
\<close>

lemma translate_query_error_raises:
  assumes "translate_query_error e q = Inl x"
  shows "x = IndexError \<and> (\<exists>cls args. e = Client cls args \<and> \<not> driver_args args)"
proof (cases e)
  case (Client cls args)
  have "\<not> args_present cls args"
  proof
    assume "args_present cls args"
    from translate_query_error_present [OF this, of q] assms Client show False by auto
  qed
  then have "\<not> driver_args args" using driver_args_present by blast
  moreover have "x = IndexError" using assms Client by (auto split: if_splits)
  ultimately show ?thesis using Client by simp
qed (use assms in auto)

text \<open>
  Claim C1. For every error of a driver, of whatever class and with the \<^verbatim>\<open>args\<close> a
  driver gives it (\<open>driver_args\<close>), \<open>translate_query_error\<close> returns an exception whose
  kind is exactly the one the translation table gives for the error's class and code,
  and when the table gives no kind the error itself is returned unchanged. An exception
  that is not a driver error is returned unchanged too.
\<close>

theorem translate_query_error_table:
  "(driver_args args \<longrightarrow>
      (\<exists>r. translate_query_error (Client cls args) q = Inr r \<and>
           kind_of r = translation_table cls (hd args) \<and>
           (translation_table cls (hd args) = PassThrough \<longrightarrow> r = Client cls args))) \<and>
   ((\<forall>cls args. e \<noteq> Client cls args) \<longrightarrow> translate_query_error e q = Inr e)"
  using translate_query_error_present [OF driver_args_present] translate_query_error_other
  by blast

text \<open>
  An operational error with the insufficient-privilege code becomes the access error; the
  interface error with the message \<^verbatim>\<open>(0, '')\<close> becomes the lost-connection error; a data
  error, for which the table has no row, and an error of \<^verbatim>\<open>sqlite3\<close> are returned as
  they are.
\<close>

theorem translate_query_error_table_witness:
  "driver_args [IntV 1044, StrV ''denied''] \<and>
   translate_query_error (Client Client_OperationalError [IntV 1044, StrV ''denied''])
       ''SELECT 1'' =
     Inr (Errors AccessError [StrV ''Insufficient privileges.'', StrV ''denied'',
            StrV ''SELECT 1'']) \<and>
   translation_table Client_OperationalError (IntV 1044) = AccessDenied \<and>
   driver_args [StrV empty_detail] \<and>
   translate_query_error (Client Client_InterfaceError [StrV empty_detail]) ''SELECT 1'' =
     Inr (Errors LostConnectionError
            [StrV ''Server connection lost due to an interface error.'']) \<and>
   translation_table Client_InterfaceError (StrV empty_detail) = LostConnection \<and>
   driver_args [IntV 1406, StrV ''Data too long''] \<and>
   translate_query_error (Client Client_DataError [IntV 1406, StrV ''Data too long''])
       ''SELECT 1'' =
     Inr (Client Client_DataError [IntV 1406, StrV ''Data too long'']) \<and>
   translation_table Client_DataError (IntV 1406) = PassThrough \<and>
   translate_query_error (Sqlite3 Sqlite3_OperationalError []) ''SELECT 1'' =
     Inr (Sqlite3 Sqlite3_OperationalError [])"
  using translate_query_error_table
          [of "[IntV 1044, StrV ''denied'']" Client_OperationalError "''SELECT 1''"
              "Sqlite3 Sqlite3_OperationalError []"]
        translate_query_error_table
          [of "[StrV empty_detail]" Client_InterfaceError "''SELECT 1''"
              "Sqlite3 Sqlite3_OperationalError []"]
        translate_query_error_table
          [of "[IntV 1406, StrV ''Data too long'']" Client_DataError "''SELECT 1''"
              "Sqlite3 Sqlite3_OperationalError []"]
  by (simp add: translation_table_def disconnect_codes_def)

subsection \<open>The health check and the constructor\<close>

lemma is_connected_networked: "\<not> sqlite c \<Longrightarrow> fst (is_connected c) \<noteq> Inr True"
  by (auto simp: is_connected_def ping_def driver_call_def
           split: option.splits reply.splits exn.splits sum.splits prod.splits)

lemma is_connected_sqlite: "sqlite c \<Longrightarrow> is_connected c = (Inr True, c)"
  by (auto simp: is_connected_def ping_def split: option.splits)

lemma connect_networked_sqlite: "\<not> sqlite c \<Longrightarrow> \<not> sqlite (snd (connect d c))"
  by (cases d)
     (auto simp: driver_call_def open_handle_def
           split: reply.splits exn.splits client_err.splits)

lemma Connection_networked_never_returns:
  "fst (Connection d False rc replies) \<noteq> Inr ()"
proof (cases d)
  case 0
  then show ?thesis by simp
next
  case (Suc d')
  define c0 where "c0 = \<lparr>sqlite = False, reconnect_default = rc, p_conn = None,
             p_in_transaction = None, schemas = [], handles = 0, events = [],
             driver = replies, calls = 0\<rparr>"
  have n: "\<not> sqlite (snd (connect d' c0))"
    by (rule connect_networked_sqlite) (simp add: c0_def)
  obtain r c1 where c: "connect d' c0 = (r, c1)" by (cases "connect d' c0")
  with n have n1: "\<not> sqlite c1" by simp
  obtain r2 c2 where i: "is_connected c1 = (r2, c2)" by (cases "is_connected c1")
  with is_connected_networked[OF n1] have "r2 \<noteq> Inr True" by simp
  with c i Suc show ?thesis
    by (auto simp: c0_def[symmetric] split: sum.splits bool.splits)
qed

lemma Connection_networked_live_server:
  "Connection (Suc (Suc d)) False rc (\<lambda>n. Ok) =
     (Inl connection_failed,
      \<lparr>sqlite = False, reconnect_default = rc, p_conn = Some 0,
       p_in_transaction = None, schemas = [], handles = 1, events = [Connected 0],
       driver = (\<lambda>n. Ok), calls = 2\<rparr>)"
  by (simp add: driver_call_def open_handle_def is_connected_def ping_def)

lemma Connection_sqlite_opens:
  "Connection (Suc (Suc (Suc d))) True rc (\<lambda>n. Ok) =
     (Inr (),
      \<lparr>sqlite = True, reconnect_default = rc, p_conn = Some 0,
       p_in_transaction = Some False, schemas = [], handles = 1,
       events = [Connected 0, Executed 0 ''PRAGMA foreign_keys=1''],
       driver = (\<lambda>n. Ok), calls = 2\<rparr>)"
  by (simp add: driver_call_def open_handle_def is_connected_def ping_def execute_query_def)

text \<open>
  Claim C9 does not hold of the code. On the networked backend a ping that returns makes
  \<open>is_connected\<close> answer \<^verbatim>\<open>False\<close>: with a driver that answers every call normally
  \<^verbatim>\<open>connect()\<close> succeeds, the check fails and the constructor raises the connection
  error; whatever the driver answers, the constructor never returns on that backend. On
  the embedded backend the check passes (\<open>is_connected_sqlite\<close>,
  \<open>Connection_sqlite_opens\<close>).
\<close>

theorem Connection_networked_raises:
  "fst (is_connected (snd (connect (Suc d) (established False False (\<lambda>n. Ok))))) = Inr False \<and>
   fst (Connection (Suc (Suc d)) False rc (\<lambda>n. Ok)) = Inl connection_failed \<and>
   fst (Connection d' False rc replies) \<noteq> Inr ()"
  using Connection_networked_never_returns [of d' rc replies]
        Connection_networked_live_server [of d rc]
  by (simp add: established_def driver_call_def open_handle_def is_connected_def ping_def)

subsection \<open>Transactions\<close>

lemma resolved_update [simp]:
  "resolved (c\<lparr>events := ev\<rparr>) rc = resolved c rc"
  "resolved (c\<lparr>calls := n\<rparr>) rc = resolved c rc"
  "resolved (c\<lparr>p_conn := pc\<rparr>) rc = resolved c rc"
  "resolved (c\<lparr>handles := hs\<rparr>) rc = resolved c rc"
  "resolved (c\<lparr>p_in_transaction := t\<rparr>) rc = resolved c rc"
  by (simp_all add: resolved_def split: option.splits)

lemma query_ok:
  "p_conn c = Some h \<Longrightarrow> driver c (calls c) = Ok \<Longrightarrow>
   query (Suc d) c q rc =
     (Inr (Cursor h q), c\<lparr>events := events c @ [Executed h q], calls := Suc (calls c)\<rparr>)"
  by (simp add: execute_query_def driver_call_def)

lemma query_sqlite_operational:
  "p_conn c = Some h \<Longrightarrow> sqlite c \<Longrightarrow>
   driver c (calls c) = Raises (Sqlite3 Sqlite3_OperationalError a) \<Longrightarrow>
   query (Suc d) c q rc =
     (Inl (Sqlite3 Sqlite3_OperationalError a),
      c\<lparr>events := events c @ [Executed h q], calls := Suc (calls c)\<rparr>)"
  by (simp add: execute_query_def driver_call_def)

lemma start_transaction_sqlite_nested:
  "sqlite c \<Longrightarrow> p_in_transaction c = Some True \<Longrightarrow>
   start_transaction (Suc d) c = (Inl nested_error, c)"
  by (cases c) (simp add: in_transaction_def is_connected_def ping_def split: option.splits)

lemma start_transaction_opens:
  "p_in_transaction c = Some False \<Longrightarrow> p_conn c = Some h \<Longrightarrow> driver c (calls c) = Ok \<Longrightarrow>
   start_transaction (Suc (Suc d)) c =
     (Inr (),
      c\<lparr>p_in_transaction := Some True,
        events := events c @ [Executed h (if sqlite c then ''BEGIN TRANSACTION''
                   else ''START TRANSACTION WITH CONSISTENT SNAPSHOT'')],
        calls := Suc (calls c)\<rparr>)"
  by (simp add: in_transaction_def execute_query_def driver_call_def)


lemma verbs_return_closed:
  "(fst (cancel_transaction d c) = Inr () \<longrightarrow>
      p_in_transaction (snd (cancel_transaction d c)) = Some False) \<and>
   (fst (commit_transaction d c) = Inr () \<longrightarrow>
      p_in_transaction (snd (commit_transaction d c)) = Some False)"
  by (cases d) (auto split: prod.splits sum.splits exn.splits sqlite3_err.splits)

lemma verbs_swallow:
  assumes "p_conn c = Some h"
    and "driver c (calls c) = Ok \<or>
         sqlite c \<and> driver c (calls c) = Raises (Sqlite3 Sqlite3_OperationalError a)"
  shows "cancel_transaction (Suc (Suc d)) c =
           (Inr (), c\<lparr>p_in_transaction := Some False,
                      events := events c @ [Executed h ''ROLLBACK''],
                      calls := Suc (calls c)\<rparr>)"
    and "commit_transaction (Suc (Suc d)) c =
           (Inr (), c\<lparr>p_in_transaction := Some False,
                      events := events c @ [Executed h ''COMMIT''],
                      calls := Suc (calls c)\<rparr>)"
  using assms by (auto simp: query_ok query_sqlite_operational simp del: query.simps)

lemma verbs_propagate:
  "(query d c ''ROLLBACK'' None = (Inl e, c1) \<and> (\<forall>a. e \<noteq> Sqlite3 Sqlite3_OperationalError a)
      \<longrightarrow> cancel_transaction (Suc d) c = (Inl e, c1)) \<and>
   (query d c ''COMMIT'' None = (Inl e, c1) \<and> (\<forall>a. e \<noteq> Sqlite3 Sqlite3_OperationalError a)
      \<longrightarrow> commit_transaction (Suc d) c = (Inl e, c1))"
  by (auto split: exn.splits sqlite3_err.splits)

text \<open>
  What the two verbs do. Whenever \<open>cancel_transaction\<close> or \<open>commit_transaction\<close>
  returns, \<^verbatim>\<open>_in_transaction\<close> is false. Each of them returns, having sent its one
  statement, when the driver answers the statement normally or, on the embedded backend,
  with an exception of the class \<^verbatim>\<open>sqlite3.OperationalError\<close>. An exception of any other
  class that the query of the statement raises is raised by the verb, which leaves the
  connection as the query left it.
\<close>

lemma transaction_verbs_close:
  "(fst (cancel_transaction d c) = Inr () \<longrightarrow>
      p_in_transaction (snd (cancel_transaction d c)) = Some False) \<and>
   (fst (commit_transaction d c) = Inr () \<longrightarrow>
      p_in_transaction (snd (commit_transaction d c)) = Some False) \<and>
   (p_conn c = Some h \<and>
    (driver c (calls c) = Ok \<or>
     sqlite c \<and> driver c (calls c) = Raises (Sqlite3 Sqlite3_OperationalError a)) \<longrightarrow>
      cancel_transaction (Suc (Suc d)) c =
        (Inr (), c\<lparr>p_in_transaction := Some False,
                   events := events c @ [Executed h ''ROLLBACK''],
                   calls := Suc (calls c)\<rparr>) \<and>
      commit_transaction (Suc (Suc d)) c =
        (Inr (), c\<lparr>p_in_transaction := Some False,
                   events := events c @ [Executed h ''COMMIT''],
                   calls := Suc (calls c)\<rparr>)) \<and>
   (query d c ''ROLLBACK'' None = (Inl e, c1) \<and> (\<forall>a. e \<noteq> Sqlite3 Sqlite3_OperationalError a)
      \<longrightarrow> cancel_transaction (Suc d) c = (Inl e, c1)) \<and>
   (query d c ''COMMIT'' None = (Inl e, c1) \<and> (\<forall>a. e \<noteq> Sqlite3 Sqlite3_OperationalError a)
      \<longrightarrow> commit_transaction (Suc d) c = (Inl e, c1))"
  using verbs_return_closed [of d c] verbs_swallow [of c h a d] verbs_propagate [of d c e c1]
  by blast

text \<open>
  A connection of the embedded backend with no open transaction, whose engine answers
  \<^verbatim>\<open>ROLLBACK\<close> with its no-transaction error: the verb returns and the state is closed.
  A connection of the networked backend whose statement meets a server that has gone
  away, with the reconnect option off: the error of the query is raised by the verb.
\<close>

lemma transaction_verbs_close_example:
  "cancel_transaction (Suc (Suc 0)) (established True False (replies_then_ok [Raises no_transaction]))
     = (Inr (), (established True False (replies_then_ok [Raises no_transaction]))
                  \<lparr>events := [Executed 0 ''ROLLBACK''], calls := 1\<rparr>) \<and>
   commit_transaction (Suc (Suc 0))
       ((established False False (replies_then_ok [Raises gone_away]))\<lparr>reconnect_default := False\<rparr>)
     = (Inl (Errors LostConnectionError
               [StrV ''Connection timed out'', StrV ''MySQL server has gone away'']),
        (established False False (replies_then_ok [Raises gone_away]))
           \<lparr>reconnect_default := False, events := [Executed 0 ''COMMIT''], calls := 1\<rparr>)"
  using transaction_verbs_close
          [where d = 0 and h = 0
             and c = "established True False (replies_then_ok [Raises no_transaction])"
             and a = "[StrV ''cannot rollback - no transaction is active'']"]
        transaction_verbs_close
          [where d = "Suc 0"
             and c = "(established False False (replies_then_ok [Raises gone_away]))
                        \<lparr>reconnect_default := False\<rparr>"
             and e = "Errors LostConnectionError
                        [StrV ''Connection timed out'', StrV ''MySQL server has gone away'']"
             and ?c1.0 = "(established False False (replies_then_ok [Raises gone_away]))
                        \<lparr>reconnect_default := False, events := [Executed 0 ''COMMIT''],
                         calls := 1\<rparr>"]
  by (simp add: established_def no_transaction_def gone_away_def execute_query_def
                driver_call_def disconnect_codes_def resolved_def)

text \<open>
  Claim C8 does not hold of the code on the embedded backend. The handler of the two
  verbs is meant for the error the engine raises when the transaction was closed
  already, but it catches the whole class \<^verbatim>\<open>sqlite3.OperationalError\<close>. A commit that
  the engine refuses because the database is locked, inside an open transaction, raises
  an error of that class which is not the one of a closed transaction: the verb does not
  raise it, it returns and marks the transaction closed, although nothing was committed.
\<close>

theorem commit_transaction_swallows_locked:
  "commit_transaction (Suc (Suc 0)) (established True True (replies_then_ok [Raises locked])) =
     (Inr (), (established True True (replies_then_ok [Raises locked]))
                \<lparr>p_in_transaction := Some False, events := [Executed 0 ''COMMIT''],
                 calls := 1\<rparr>) \<and>
   locked \<noteq> no_transaction"
  by (simp add: established_def locked_def no_transaction_def execute_query_def driver_call_def)

subsection \<open>Reconnection\<close>

lemma query_no_reconnect:
  assumes "p_conn c = Some h" "driver c (calls c) = Raises err" "connection_loss c err q e"
    and "\<not> resolved c rc"
  shows "query (Suc d) c q rc =
           (Inl e, c\<lparr>events := events c @ [Executed h q], calls := Suc (calls c)\<rparr>)"
  using assms
  by (cases "sqlite c") (auto simp: connection_loss_def execute_query_def driver_call_def)

lemma query_networked_in_transaction:
  assumes "p_conn c = Some h" "driver c (calls c) = Raises err" "connection_loss c err q e"
    and "resolved c rc" "\<not> sqlite c" "p_in_transaction c = Some True"
    and "driver c (Suc (calls c)) = Ok" "driver c (Suc (Suc (calls c))) = Ok"
  shows "query (Suc (Suc (Suc d))) c q rc =
           (Inl lost_in_transaction,
            c\<lparr>p_conn := Some (handles c), handles := Suc (handles c),
              p_in_transaction := Some False,
              events := events c @ [Executed h q, Connected (handles c),
                                    Executed (handles c) ''ROLLBACK''],
              calls := Suc (Suc (Suc (calls c)))\<rparr>)"
  using assms
  by (auto simp: connection_loss_def execute_query_def driver_call_def open_handle_def)

lemma query_networked_retry:
  assumes "p_conn c = Some h" "driver c (calls c) = Raises err" "connection_loss c err q e"
    and "resolved c rc" "\<not> sqlite c" "p_in_transaction c = Some False"
    and "driver c (Suc (calls c)) = Ok"
  shows "driver c (Suc (Suc (calls c))) = Ok \<longrightarrow>
         query (Suc (Suc d)) c q rc =
           (Inr (Cursor (handles c) q),
            c\<lparr>p_conn := Some (handles c), handles := Suc (handles c),
              events := events c @ [Executed h q, Connected (handles c),
                                    Executed (handles c) q],
              calls := Suc (Suc (Suc (calls c)))\<rparr>)"
    and "driver c (Suc (Suc (calls c))) = Raises err \<longrightarrow>
         query (Suc (Suc d)) c q rc =
           (Inl e,
            c\<lparr>p_conn := Some (handles c), handles := Suc (handles c),
              events := events c @ [Executed h q, Connected (handles c),
                                    Executed (handles c) q],
              calls := Suc (Suc (Suc (calls c)))\<rparr>)"
  using assms
  by (auto simp: connection_loss_def execute_query_def driver_call_def open_handle_def)

lemma query_networked_reconnect_fails:
  assumes "p_conn c = Some h" "driver c (calls c) = Raises err" "connection_loss c err q e"
    and "resolved c rc" "\<not> sqlite c"
    and "driver c (Suc (calls c)) = Raises e2" "\<forall>a. e2 \<noteq> Client Client_InternalError a"
  shows "query (Suc (Suc d)) c q rc =
           (Inl e2, c\<lparr>events := events c @ [Executed h q], calls := Suc (Suc (calls c))\<rparr>)"
  using assms
  by (auto simp: connection_loss_def execute_query_def driver_call_def open_handle_def
           split: exn.splits client_err.splits)

lemma query_sqlite_in_transaction:
  assumes "p_conn c = Some h" "driver c (calls c) = Raises err" "connection_loss c err q e"
    and "resolved c rc" "sqlite c" "p_in_transaction c = Some True"
    and "driver c (Suc (calls c)) = Ok \<or>
         driver c (Suc (calls c)) = Raises (Sqlite3 Sqlite3_OperationalError a)"
  shows "query (Suc (Suc (Suc d))) c q rc =
           (Inl lost_in_transaction,
            c\<lparr>p_in_transaction := Some False,
              events := events c @ [Executed h q, Executed h ''ROLLBACK''],
              calls := Suc (Suc (calls c))\<rparr>)"
  using assms
  by (auto simp: connection_loss_def execute_query_def driver_call_def open_handle_def)

lemma query_sqlite_retry:
  assumes "p_conn c = Some h" "driver c (calls c) = Raises err" "connection_loss c err q e"
    and "resolved c rc" "sqlite c" "p_in_transaction c = Some False"
    and "driver c (Suc (calls c)) = Ok" "driver c (Suc (Suc (calls c))) = Ok"
    and "driver c (Suc (Suc (Suc (calls c)))) = Ok"
  shows "query (Suc (Suc (Suc d))) c q rc =
           (Inr (Cursor (handles c) q),
            c\<lparr>p_conn := Some (handles c), handles := Suc (handles c),
              events := events c @ [Executed h q, Closed h, Connected (handles c),
                                    Executed (handles c) ''PRAGMA foreign_keys=1'',
                                    Executed (handles c) q],
              calls := Suc (Suc (Suc (Suc (calls c))))\<rparr>)"
  using assms
  by (auto simp: connection_loss_def execute_query_def driver_call_def open_handle_def)

text \<open>
  Claim C4, as amended. A call of \<open>query\<close> on the handle \<open>h\<close> whose statement meets a
  connection-loss error \<open>e\<close> (\<open>connection_loss\<close>) behaves as follows; \<open>handles c\<close> is
  the new physical handle (the handles opened before it have smaller numbers), and
  \<open>events\<close> lists every statement sent.
  \<^item> If \<^verbatim>\<open>reconnect\<close> resolves to false, \<open>e\<close> is raised and nothing else is done.
  \<^item> Networked backend, \<^verbatim>\<open>reconnect\<close> true: the connection is opened again first. If that
    fails (with an error other than the one \<^verbatim>\<open>connect\<close> retries), its error is raised and
    \<^verbatim>\<open>_in_transaction\<close> is as before. If it succeeds and a transaction is open,
    \<^verbatim>\<open>ROLLBACK\<close> is sent on the new handle and, when it returns, the lost-connection error
    is raised with \<^verbatim>\<open>_in_transaction\<close> false and the statement not sent again. If it
    succeeds and no transaction is open, the statement is sent once more on the new
    handle: its cursor is returned when it succeeds, and when it fails in the same way
    its error is raised with no further attempt.
  \<^item> Embedded backend, \<^verbatim>\<open>reconnect\<close> true: with a transaction open, \<^verbatim>\<open>ROLLBACK\<close> is sent on
    the same handle and, when it returns or raises an operational error, the
    lost-connection error is raised with \<^verbatim>\<open>_in_transaction\<close> false; with none open, the
    handle is closed, a new one is opened, which sends the pragma, and the statement is
    sent once more, its cursor being returned when all three succeed.
\<close>

theorem query_connection_loss:
  assumes "p_conn c = Some h" and "driver c (calls c) = Raises err"
    and "connection_loss c err q e"
  shows
   "(\<not> resolved c rc \<longrightarrow>
       query (Suc d) c q rc =
         (Inl e, c\<lparr>events := events c @ [Executed h q], calls := Suc (calls c)\<rparr>)) \<and>
    (resolved c rc \<and> \<not> sqlite c \<and> driver c (Suc (calls c)) = Raises e2 \<and>
     (\<forall>a. e2 \<noteq> Client Client_InternalError a) \<longrightarrow>
       query (Suc (Suc d)) c q rc =
         (Inl e2, c\<lparr>events := events c @ [Executed h q], calls := Suc (Suc (calls c))\<rparr>)) \<and>
    (resolved c rc \<and> \<not> sqlite c \<and> p_in_transaction c = Some True \<and>
     driver c (Suc (calls c)) = Ok \<and> driver c (Suc (Suc (calls c))) = Ok \<longrightarrow>
       query (Suc (Suc (Suc d))) c q rc =
         (Inl lost_in_transaction,
          c\<lparr>p_conn := Some (handles c), handles := Suc (handles c),
            p_in_transaction := Some False,
            events := events c @ [Executed h q, Connected (handles c),
                                  Executed (handles c) ''ROLLBACK''],
            calls := Suc (Suc (Suc (calls c)))\<rparr>)) \<and>
    (resolved c rc \<and> \<not> sqlite c \<and> p_in_transaction c = Some False \<and>
     driver c (Suc (calls c)) = Ok \<and> driver c (Suc (Suc (calls c))) = Ok \<longrightarrow>
       query (Suc (Suc d)) c q rc =
         (Inr (Cursor (handles c) q),
          c\<lparr>p_conn := Some (handles c), handles := Suc (handles c),
            events := events c @ [Executed h q, Connected (handles c),
                                  Executed (handles c) q],
            calls := Suc (Suc (Suc (calls c)))\<rparr>)) \<and>
    (resolved c rc \<and> \<not> sqlite c \<and> p_in_transaction c = Some False \<and>
     driver c (Suc (calls c)) = Ok \<and> driver c (Suc (Suc (calls c))) = Raises err \<longrightarrow>
       query (Suc (Suc d)) c q rc =
         (Inl e,
          c\<lparr>p_conn := Some (handles c), handles := Suc (handles c),
            events := events c @ [Executed h q, Connected (handles c),
                                  Executed (handles c) q],
            calls := Suc (Suc (Suc (calls c)))\<rparr>)) \<and>
    (resolved c rc \<and> sqlite c \<and> p_in_transaction c = Some True \<and>
     (driver c (Suc (calls c)) = Ok \<or>
      driver c (Suc (calls c)) = Raises (Sqlite3 Sqlite3_OperationalError a)) \<longrightarrow>
       query (Suc (Suc (Suc d))) c q rc =
         (Inl lost_in_transaction,
          c\<lparr>p_in_transaction := Some False,
            events := events c @ [Executed h q, Executed h ''ROLLBACK''],
            calls := Suc (Suc (calls c))\<rparr>)) \<and>
    (resolved c rc \<and> sqlite c \<and> p_in_transaction c = Some False \<and>
     driver c (Suc (calls c)) = Ok \<and> driver c (Suc (Suc (calls c))) = Ok \<and>
     driver c (Suc (Suc (Suc (calls c)))) = Ok \<longrightarrow>
       query (Suc (Suc (Suc d))) c q rc =
         (Inr (Cursor (handles c) q),
          c\<lparr>p_conn := Some (handles c), handles := Suc (handles c),
            events := events c @ [Executed h q, Closed h, Connected (handles c),
                                  Executed (handles c) ''PRAGMA foreign_keys=1'',
                                  Executed (handles c) q],
            calls := Suc (Suc (Suc (Suc (calls c))))\<rparr>))"
proof (intro conjI impI)
  assume "\<not> resolved c rc"
  with assms show "query (Suc d) c q rc =
      (Inl e, c\<lparr>events := events c @ [Executed h q], calls := Suc (calls c)\<rparr>)"
    by (rule query_no_reconnect)
next
  assume "resolved c rc \<and> \<not> sqlite c \<and> driver c (Suc (calls c)) = Raises e2 \<and>
     (\<forall>a. e2 \<noteq> Client Client_InternalError a)"
  with assms show "query (Suc (Suc d)) c q rc =
      (Inl e2, c\<lparr>events := events c @ [Executed h q], calls := Suc (Suc (calls c))\<rparr>)"
    by (intro query_networked_reconnect_fails) auto
next
  assume "resolved c rc \<and> \<not> sqlite c \<and> p_in_transaction c = Some True \<and>
     driver c (Suc (calls c)) = Ok \<and> driver c (Suc (Suc (calls c))) = Ok"
  with assms show "query (Suc (Suc (Suc d))) c q rc =
         (Inl lost_in_transaction,
          c\<lparr>p_conn := Some (handles c), handles := Suc (handles c),
            p_in_transaction := Some False,
            events := events c @ [Executed h q, Connected (handles c),
                                  Executed (handles c) ''ROLLBACK''],
            calls := Suc (Suc (Suc (calls c)))\<rparr>)"
    by (intro query_networked_in_transaction) auto
next
  assume "resolved c rc \<and> \<not> sqlite c \<and> p_in_transaction c = Some False \<and>
     driver c (Suc (calls c)) = Ok \<and> driver c (Suc (Suc (calls c))) = Ok"
  with assms query_networked_retry(1) [of c h err q e rc d]
  show "query (Suc (Suc d)) c q rc =
         (Inr (Cursor (handles c) q),
          c\<lparr>p_conn := Some (handles c), handles := Suc (handles c),
            events := events c @ [Executed h q, Connected (handles c),
                                  Executed (handles c) q],
            calls := Suc (Suc (Suc (calls c)))\<rparr>)"
    by blast
next
  assume "resolved c rc \<and> \<not> sqlite c \<and> p_in_transaction c = Some False \<and>
     driver c (Suc (calls c)) = Ok \<and> driver c (Suc (Suc (calls c))) = Raises err"
  with assms query_networked_retry(2) [of c h err q e rc d]
  show "query (Suc (Suc d)) c q rc =
         (Inl e,
          c\<lparr>p_conn := Some (handles c), handles := Suc (handles c),
            events := events c @ [Executed h q, Connected (handles c),
                                  Executed (handles c) q],
            calls := Suc (Suc (Suc (calls c)))\<rparr>)"
    by blast
next
  assume "resolved c rc \<and> sqlite c \<and> p_in_transaction c = Some True \<and>
     (driver c (Suc (calls c)) = Ok \<or>
      driver c (Suc (calls c)) = Raises (Sqlite3 Sqlite3_OperationalError a))"
  with assms show "query (Suc (Suc (Suc d))) c q rc =
         (Inl lost_in_transaction,
          c\<lparr>p_in_transaction := Some False,
            events := events c @ [Executed h q, Executed h ''ROLLBACK''],
            calls := Suc (Suc (calls c))\<rparr>)"
    by (intro query_sqlite_in_transaction [where a = a]) auto
next
  assume "resolved c rc \<and> sqlite c \<and> p_in_transaction c = Some False \<and>
     driver c (Suc (calls c)) = Ok \<and> driver c (Suc (Suc (calls c))) = Ok \<and>
     driver c (Suc (Suc (Suc (calls c)))) = Ok"
  with assms show "query (Suc (Suc (Suc d))) c q rc =
         (Inr (Cursor (handles c) q),
          c\<lparr>p_conn := Some (handles c), handles := Suc (handles c),
            events := events c @ [Executed h q, Closed h, Connected (handles c),
                                  Executed (handles c) ''PRAGMA foreign_keys=1'',
                                  Executed (handles c) q],
            calls := Suc (Suc (Suc (Suc (calls c))))\<rparr>)"
    by (intro query_sqlite_retry) auto
qed

theorem query_connection_loss_witness:
  "query (Suc (Suc (Suc 0))) (established False True (replies_then_ok [Raises gone_away]))
      ''SELECT 1'' (Some True) =
     (Inl lost_in_transaction,
      (established False True (replies_then_ok [Raises gone_away]))
        \<lparr>p_conn := Some 1, handles := 2, p_in_transaction := Some False,
         events := [Executed 0 ''SELECT 1'', Connected 1, Executed 1 ''ROLLBACK''],
         calls := 3\<rparr>) \<and>
   query (Suc (Suc 0)) (established False False (replies_then_ok [Raises gone_away]))
      ''SELECT 1'' None =
     (Inr (Cursor 1 ''SELECT 1''),
      (established False False (replies_then_ok [Raises gone_away]))
        \<lparr>p_conn := Some 1, handles := 2,
         events := [Executed 0 ''SELECT 1'', Connected 1, Executed 1 ''SELECT 1''],
         calls := 3\<rparr>) \<and>
   query (Suc 0) (established False False (replies_then_ok [Raises gone_away]))
      ''SELECT 1'' (Some False) =
     (Inl (Errors LostConnectionError
             [StrV ''Connection timed out'', StrV ''MySQL server has gone away'']),
      (established False False (replies_then_ok [Raises gone_away]))
        \<lparr>events := [Executed 0 ''SELECT 1''], calls := 1\<rparr>) \<and>
   query (Suc (Suc (Suc 0))) (established True True (replies_then_ok [Raises malformed]))
      ''SELECT 1'' (Some True) =
     (Inl lost_in_transaction,
      (established True True (replies_then_ok [Raises malformed]))
        \<lparr>p_in_transaction := Some False,
         events := [Executed 0 ''SELECT 1'', Executed 0 ''ROLLBACK''], calls := 2\<rparr>) \<and>
   query (Suc (Suc (Suc 0))) (established True False (replies_then_ok [Raises malformed]))
      ''SELECT 1'' (Some True) =
     (Inr (Cursor 1 ''SELECT 1''),
      (established True False (replies_then_ok [Raises malformed]))
        \<lparr>p_conn := Some 1, handles := 2,
         events := [Executed 0 ''SELECT 1'', Closed 0, Connected 1,
                    Executed 1 ''PRAGMA foreign_keys=1'', Executed 1 ''SELECT 1''],
         calls := 4\<rparr>) \<and>
   query (Suc (Suc 0))
      (established False True (replies_then_ok [Raises gone_away, Raises refused]))
      ''SELECT 1'' (Some True) =
     (Inl refused,
      (established False True (replies_then_ok [Raises gone_away, Raises refused]))
        \<lparr>events := [Executed 0 ''SELECT 1''], calls := 2\<rparr>) \<and>
   query (Suc (Suc 0))
      (established False False (replies_then_ok [Raises gone_away, Ok, Raises gone_away]))
      ''SELECT 1'' (Some True) =
     (Inl (Errors LostConnectionError
             [StrV ''Connection timed out'', StrV ''MySQL server has gone away'']),
      (established False False (replies_then_ok [Raises gone_away, Ok, Raises gone_away]))
        \<lparr>p_conn := Some 1, handles := 2,
         events := [Executed 0 ''SELECT 1'', Connected 1, Executed 1 ''SELECT 1''],
         calls := 3\<rparr>)"
  using query_connection_loss
          [where c = "established False True (replies_then_ok [Raises gone_away, Raises refused])"
             and h = 0 and err = gone_away and q = "''SELECT 1''" and rc = "Some True"
             and d = 0 and ?e2.0 = refused
             and e = "Errors LostConnectionError
                        [StrV ''Connection timed out'', StrV ''MySQL server has gone away'']"]
        query_connection_loss
          [where c = "established False False
                        (replies_then_ok [Raises gone_away, Ok, Raises gone_away])"
             and h = 0 and err = gone_away and q = "''SELECT 1''" and rc = "Some True"
             and d = 0
             and e = "Errors LostConnectionError
                        [StrV ''Connection timed out'', StrV ''MySQL server has gone away'']"]
        query_connection_loss
          [where c = "established False True (replies_then_ok [Raises gone_away])"
             and h = 0 and err = gone_away and q = "''SELECT 1''" and rc = "Some True"
             and d = 0
             and e = "Errors LostConnectionError
                        [StrV ''Connection timed out'', StrV ''MySQL server has gone away'']"]
        query_connection_loss
          [where c = "established False False (replies_then_ok [Raises gone_away])"
             and h = 0 and err = gone_away and q = "''SELECT 1''" and rc = None
             and d = 0
             and e = "Errors LostConnectionError
                        [StrV ''Connection timed out'', StrV ''MySQL server has gone away'']"]
        query_connection_loss
          [where c = "established False False (replies_then_ok [Raises gone_away])"
             and h = 0 and err = gone_away and q = "''SELECT 1''" and rc = "Some False"
             and d = 0
             and e = "Errors LostConnectionError
                        [StrV ''Connection timed out'', StrV ''MySQL server has gone away'']"]
        query_connection_loss
          [where c = "established True True (replies_then_ok [Raises malformed])"
             and h = 0 and err = malformed and q = "''SELECT 1''" and rc = "Some True"
             and d = 0 and e = malformed]
        query_connection_loss
          [where c = "established True False (replies_then_ok [Raises malformed])"
             and h = 0 and err = malformed and q = "''SELECT 1''" and rc = "Some True"
             and d = 0 and e = malformed]
  by (simp add: established_def gone_away_def malformed_def refused_def connection_loss_def
                disconnect_codes_def resolved_def)

text \<open>
  The claim as stated fails when a transaction is open and the server is still away: on
  the networked backend the connection is opened again before the transaction is looked
  at, the error of that attempt is raised instead of the lost-connection error, no
  \<^verbatim>\<open>ROLLBACK\<close> is sent and \<^verbatim>\<open>_in_transaction\<close> stays true.
\<close>

theorem query_reconnect_fails_in_transaction:
  "connection_loss (established False True (replies_then_ok [Raises gone_away, Raises refused]))
     gone_away ''SELECT 1''
     (Errors LostConnectionError
        [StrV ''Connection timed out'', StrV ''MySQL server has gone away'']) \<and>
   query (Suc (Suc (Suc 0)))
      (established False True (replies_then_ok [Raises gone_away, Raises refused]))
      ''SELECT 1'' (Some True) =
     (Inl refused,
      (established False True (replies_then_ok [Raises gone_away, Raises refused]))
        \<lparr>events := [Executed 0 ''SELECT 1''], calls := 2\<rparr>) \<and>
   p_in_transaction
     (snd (query (Suc (Suc (Suc 0)))
             (established False True (replies_then_ok [Raises gone_away, Raises refused]))
             ''SELECT 1'' (Some True))) = Some True"
  by (simp add: established_def gone_away_def refused_def connection_loss_def
                disconnect_codes_def resolved_def execute_query_def driver_call_def)

subsection \<open>Loading the graph\<close>

lemma digits_small: "n < 10 \<Longrightarrow> digits n = [digit n]"
  by (subst digits.simps) simp

lemma load_graph:
  "snd (load c db deps) =
     (if sqlite c \<and> 1 < length (schemas c) then clear deps else build c db (clear deps))"
  by (simp add: load_def)

lemmas load_eval = load_graph build_def clear_def ensure_node_def load_pks_def load_fks_def joined_schemas_def
  qualified_name_def pks_add_def pks_get_def fks_add_def sqlite_fk_row_def mysql_fk_row_def
  add_node_def add_foreign_key_def edge_props_def add_edge_def node_names_def digit_def
  digits_small Let_def register_def established_def Dependencies_def


text \<open>
  Claim C10. On a connection of the embedded backend with more than one registered
  schema, \<open>load\<close> raises the plain exception, which is no error of the taxonomy, and
  leaves the graph cleared: no node and no edge was added. On the networked backend
  \<open>load\<close> never raises that exception, however many schemas are registered.
\<close>

theorem load_sqlite_many_schemas:
  "(sqlite c \<and> 1 < length (schemas c) \<longrightarrow>
      load c db deps = (Inl too_many_schemas, deps\<lparr>nodes := [], edges := []\<rparr>) \<and>
      \<not> is_DataJointError too_many_schemas) \<and>
   (\<not> sqlite c \<longrightarrow> fst (load c db deps) \<noteq> Inl too_many_schemas)"
  by (auto simp: load_def clear_def too_many_schemas_def cyclic_error_def Let_def)

theorem load_sqlite_many_schemas_witness:
  "sqlite two_schemas \<and> schemas two_schemas = [''lab'', ''shared''] \<and>
   load two_schemas owner_editor (snd (load lab_sqlite owner_editor Dependencies)) =
     (Inl too_many_schemas, \<lparr>nodes = [], edges = [], node_alias_count = 1\<rparr>) \<and>
   \<not> sqlite lab_networked \<and>
   fst (load lab_networked owner_editor Dependencies) \<noteq> Inl too_many_schemas"
  using load_sqlite_many_schemas
          [of two_schemas owner_editor "snd (load lab_sqlite owner_editor Dependencies)"]
        load_sqlite_many_schemas [of lab_networked owner_editor Dependencies]
  by (simp add: two_schemas_def lab_sqlite_def lab_networked_def owner_editor_def load_eval)

text \<open>
  Claim C6 does not hold of the code on the embedded backend. For an aliased foreign key
  \<open>add_foreign_key\<close> does add an alias node and two edges with the same attributes
  (\<open>add_foreign_key_edges\<close>); but the embedded branch of \<^verbatim>\<open>load\<close> groups the rows under
  the constant constraint name \<^verbatim>\<open>'FOREIGN'\<close>, so the two foreign keys of \<open>owner_editor\<close>
  from \<^verbatim>\<open>b\<close> to \<^verbatim>\<open>a\<close> become one foreign key with two columns: there is one alias
  node, and \<^verbatim>\<open>parents\<close> of \<^verbatim>\<open>b\<close> has one entry.
\<close>

theorem load_sqlite_merges_foreign_keys:
  "map fst (nodes (snd (load lab_sqlite owner_editor Dependencies))) =
     [''`lab`.`a`'', ''`lab`.`b`'', ''0''] \<and>
   edges (snd (load lab_sqlite owner_editor Dependencies)) =
     [((''`lab`.`a`'', ''0''),
       \<lparr>primary = False, attr_map = [(''owner_id'', ''id''), (''editor_id'', ''id'')],
        aliased = True, multi = True\<rparr>),
      ((''0'', ''`lab`.`b`''),
       \<lparr>primary = False, attr_map = [(''owner_id'', ''id''), (''editor_id'', ''id'')],
        aliased = True, multi = True\<rparr>)] \<and>
   node_alias_count (snd (load lab_sqlite owner_editor Dependencies)) = 1 \<and>
   map fst (parents (snd (load lab_sqlite owner_editor Dependencies)) ''`lab`.`b`'' None) =
     [''0'']"
  by (simp add: lab_sqlite_def owner_editor_def load_eval parents_def in_edges_def nbunch_def)

text \<open>
  The networked branch, which groups the rows under the constraint names of the server,
  does what the claim says: two alias nodes, and two parents of \<^verbatim>\<open>b\<close>, each with the one
  parent \<^verbatim>\<open>a\<close>.
\<close>

lemma load_networked_two_aliases:
  "map fst (nodes (snd (load lab_networked owner_editor Dependencies))) =
     [''`lab`.`a`'', ''`lab`.`b`'', ''0'', ''1''] \<and>
   map fst (edges (snd (load lab_networked owner_editor Dependencies))) =
     [(''`lab`.`a`'', ''0''), (''0'', ''`lab`.`b`''),
      (''`lab`.`a`'', ''1''), (''1'', ''`lab`.`b`'')] \<and>
   map fst (parents (snd (load lab_networked owner_editor Dependencies)) ''`lab`.`b`'' None) =
     [''0'', ''1''] \<and>
   map fst (parents (snd (load lab_networked owner_editor Dependencies)) ''0'' None) =
     [''`lab`.`a`''] \<and>
   map fst (parents (snd (load lab_networked owner_editor Dependencies)) ''1'' None) =
     [''`lab`.`a`'']"
  by (simp add: lab_networked_def owner_editor_def load_eval parents_def in_edges_def nbunch_def)

subsection \<open>Decimal labels\<close>

lemma digit_value_digit: "n < 10 \<Longrightarrow> digit_value (digit n) = n"
proof -
  assume "n < 10"
  then have "n \<in> {0, 1, 2, 3, 4, 5, 6, 7, 8, 9}" by auto
  then show ?thesis
    by (elim insertE) (simp_all add: digit_def digit_value_def)
qed

lemma digit_is_digit: "n < 10 \<Longrightarrow> digit n \<in> set ''0123456789''"
proof -
  assume "n < 10"
  then have "n \<in> {0, 1, 2, 3, 4, 5, 6, 7, 8, 9}" by auto
  then show ?thesis
    by (elim insertE) (simp_all add: digit_def)
qed

lemma digit_digit_value:
  "ch \<in> set ''0123456789'' \<Longrightarrow> digit (digit_value ch) = ch \<and> digit_value ch < 10"
  by (auto simp: digit_def digit_value_def)

lemma digit_zero: "n < 10 \<Longrightarrow> digit n = CHR ''0'' \<Longrightarrow> n = 0"
  using digit_value_digit [of n] by (simp add: digit_value_def)

lemma digits_nonempty: "digits n \<noteq> []"
  by (subst digits.simps) simp

lemma fold_value_snoc:
  "fold (\<lambda>ch n. 10 * n + digit_value ch) (xs @ [ch]) 0 =
     10 * fold (\<lambda>ch n. 10 * n + digit_value ch) xs 0 + digit_value ch"
  by simp

lemma digits_numeral:
  "numeral_string (digits n) \<and> fold (\<lambda>ch n. 10 * n + digit_value ch) (digits n) 0 = n"
proof (induction n rule: digits.induct)
  case (1 n)
  show ?case
  proof (cases "n < 10")
    case True
    then have "digits n = [digit n]" by (subst digits.simps) simp
    with True digit_is_digit [OF True] show ?thesis
      by (simp add: numeral_string_def digit_value_digit)
  next
    case False
    let ?m = "n div 10"
    from False 1 have ih: "numeral_string (digits ?m)"
      "fold (\<lambda>ch n. 10 * n + digit_value ch) (digits ?m) 0 = ?m" by auto
    have d: "digits n = digits ?m @ [digit (n mod 10)]"
      using False by (subst digits.simps) simp
    have hd0: "hd (digits ?m) \<noteq> CHR ''0''"
    proof
      assume z: "hd (digits ?m) = CHR ''0''"
      have m: "?m \<noteq> 0" using False by auto
      show False
      proof (cases "?m < 10")
        case True
        then have "digits ?m = [digit ?m]" by (subst digits.simps) simp
        with z True have "?m = 0" by (simp add: digit_zero)
        with m show False by simp
      next
        case False
        with ih(1) z have "length (digits ?m) = 1" by (simp add: numeral_string_def)
        moreover have "digits ?m = digits (?m div 10) @ [digit (?m mod 10)]"
          using False by (subst digits.simps) simp
        ultimately show False using digits_nonempty [of "?m div 10"] by (cases "digits (?m div 10)") auto
      qed
    qed
    have "n mod 10 < 10" by simp
    then have "numeral_string (digits n)"
      using ih(1) hd0 digits_nonempty [of ?m] digit_is_digit [of "n mod 10"]
      by (simp add: d numeral_string_def)
    moreover have "fold (\<lambda>ch n. 10 * n + digit_value ch) (digits n) 0 = n"
      using ih(2) by (simp add: d digit_value_digit)
    ultimately show ?thesis by simp
  qed
qed

lemma undigits_digits [simp]: "undigits (digits n) = Some n"
  using digits_numeral [of n] by (simp add: undigits_def)

lemma digits_inj:
  assumes "digits i = digits j"
  shows "i = j"
proof -
  have "undigits (digits i) = undigits (digits j)" by (simp only: assms)
  then show ?thesis by simp
qed

lemma numeral_digits_value:
  "numeral_string s \<Longrightarrow> digits (fold (\<lambda>ch n. 10 * n + digit_value ch) s 0) = s"
proof (induction s rule: rev_induct)
  case Nil
  then show ?case by (simp add: numeral_string_def)
next
  case (snoc ch xs)
  let ?v = "\<lambda>s. fold (\<lambda>ch n. 10 * n + digit_value ch) s 0"
  from snoc.prems have ch: "ch \<in> set ''0123456789''"
    by (simp add: numeral_string_def)
  show ?case
  proof (cases "xs = []")
    case True
    with ch show ?thesis
      using digit_digit_value [OF ch] by (subst digits.simps) simp
  next
    case False
    with snoc.prems have hd: "hd xs \<noteq> CHR ''0''" and all: "list_all (\<lambda>ch. ch \<in> set ''0123456789'') xs"
      by (auto simp: numeral_string_def)
    with False have nx: "numeral_string xs" by (simp add: numeral_string_def)
    with snoc.IH have ih: "digits (?v xs) = xs" by simp
    have pos: "?v xs \<noteq> 0"
    proof
      assume "?v xs = 0"
      with ih have "xs = digits 0" by simp
      then have "xs = [digit 0]" by (subst (asm) digits.simps) simp
      with hd show False by (simp add: digit_def)
    qed
    have v: "?v (xs @ [ch]) = 10 * ?v xs + digit_value ch" by simp
    have lt: "digit_value ch < 10" using digit_digit_value [OF ch] by simp
    have ge: "\<not> ?v (xs @ [ch]) < 10" using pos v by simp
    have "digits (?v (xs @ [ch])) =
            digits (?v (xs @ [ch]) div 10) @ [digit (?v (xs @ [ch]) mod 10)]"
      using ge by (subst digits.simps) simp
    also have "?v (xs @ [ch]) div 10 = ?v xs" using lt v by simp
    also have "?v (xs @ [ch]) mod 10 = digit_value ch" using lt v by simp
    finally show ?thesis using ih digit_digit_value [OF ch] by simp
  qed
qed

lemma undigits_Some: "undigits s = Some i \<Longrightarrow> digits i = s"
  using numeral_digits_value [of s] by (auto simp: undigits_def split: if_splits)

lemma relabel_digits [simp]: "relabel k (digits i) = digits (i + k)"
  by (simp add: relabel_def)

lemma undigits_qualified [simp]: "undigits (qualified_name s t) = None"
  by (simp add: undigits_def numeral_string_def qualified_name_def)

lemma relabel_qualified [simp]: "relabel k (qualified_name s t) = qualified_name s t"
  by (simp add: relabel_def)

lemma relabel_inj: "relabel k s = relabel k t \<Longrightarrow> s = t"
proof (cases "undigits s"; cases "undigits t")
  fix i j
  assume a: "undigits s = Some i" "undigits t = Some j" and e: "relabel k s = relabel k t"
  then have "digits (i + k) = digits (j + k)" by (simp add: relabel_def)
  then have "i = j" using digits_inj by fastforce
  with a undigits_Some show "s = t" by metis
next
  fix i
  assume a: "undigits s = Some i" "undigits t = None" and e: "relabel k s = relabel k t"
  then have "digits (i + k) = t" by (simp add: relabel_def)
  with a(2) show "s = t" by auto
next
  fix i
  assume a: "undigits s = None" "undigits t = Some i" and e: "relabel k s = relabel k t"
  then have "digits (i + k) = s" by (simp add: relabel_def)
  with a(1) show "s = t" by auto
next
  assume "undigits s = None" "undigits t = None" "relabel k s = relabel k t"
  then show "s = t" by (simp add: relabel_def)
qed

lemma relabel_eq_iff [simp]: "relabel k s = relabel k t \<longleftrightarrow> s = t"
  using relabel_inj by auto

lemma undigits_relabel: "undigits (relabel k s) = None \<longleftrightarrow> undigits s = None"
  by (cases "undigits s") (auto simp: relabel_def)

subsection \<open>Loading twice\<close>

lemma map_of_map_key:
  "inj h \<Longrightarrow> map_of (map (\<lambda>(k, v). (h k, v)) xs) (h k) = map_of xs k"
  by (induction xs) (auto dest: injD)

lemma update_map_key:
  "inj h \<Longrightarrow>
   AList.update (h k) v (map (\<lambda>(k, v). (h k, v)) xs) =
     map (\<lambda>(k, v). (h k, v)) (AList.update k v xs)"
  by (induction xs) (auto dest: injD)

lemma inj_relabel: "inj (relabel k)"
  by (rule injI) simp

lemma inj_relabel_pair: "inj (\<lambda>(u, v). (relabel k u, relabel k v))"
  by (rule injI) auto

lemma relabel_graph_simps [simp]:
  "nodes (relabel_graph k g) = map (\<lambda>(n, a). (relabel k n, a)) (nodes g)"
  "edges (relabel_graph k g) = map (\<lambda>((u, v), p). ((relabel k u, relabel k v), p)) (edges g)"
  "node_alias_count (relabel_graph k g) = node_alias_count g + k"
  by (simp_all add: relabel_graph_def)

lemma relabel_graph_eq:
  "nodes g' = map (\<lambda>(n, a). (relabel k n, a)) (nodes g) \<Longrightarrow>
   edges g' = map (\<lambda>((u, v), p). ((relabel k u, relabel k v), p)) (edges g) \<Longrightarrow>
   node_alias_count g' = node_alias_count g + k \<Longrightarrow>
   g' = relabel_graph k g"
  by (cases g') (simp add: relabel_graph_def)

lemma node_names_relabel: "node_names (relabel_graph k g) = relabel k ` node_names g"
  by (force simp: node_names_def)

lemma relabel_add_node:
  "relabel_graph k (add_node n a g) = add_node (relabel k n) a (relabel_graph k g)"
  by (rule relabel_graph_eq [symmetric])
     (auto simp: add_node_def map_of_map_key [OF inj_relabel]
                 update_map_key [OF inj_relabel, symmetric] split: option.splits)

lemma relabel_mem_node_names [simp]:
  "relabel k u \<in> node_names (relabel_graph k g) \<longleftrightarrow> u \<in> node_names g"
  by (auto simp: node_names_relabel)

lemma relabel_append_node:
  "relabel_graph k (g\<lparr>nodes := nodes g @ [(u, a)]\<rparr>) =
     (relabel_graph k g)\<lparr>nodes := nodes (relabel_graph k g) @ [(relabel k u, a)]\<rparr>"
  by (simp add: relabel_graph_def)

lemma update_relabel_edges:
  "AList.update (relabel k u, relabel k v) p
     (map (\<lambda>((u, v), p). ((relabel k u, relabel k v), p)) es) =
   map (\<lambda>((u, v), p). ((relabel k u, relabel k v), p)) (AList.update (u, v) p es)"
  by (induction es) auto

lemma relabel_update_edge:
  "relabel_graph k (g\<lparr>edges := AList.update (u, v) p (edges g)\<rparr>) =
     (relabel_graph k g)
       \<lparr>edges := AList.update (relabel k u, relabel k v) p (edges (relabel_graph k g))\<rparr>"
  by (simp add: relabel_graph_def update_relabel_edges)

lemma relabel_ensure_node:
  "relabel_graph k (ensure_node u g) = ensure_node (relabel k u) (relabel_graph k g)"
  by (simp add: ensure_node_def relabel_append_node)

lemma relabel_add_edge:
  "relabel_graph k (add_edge u v p g) =
     add_edge (relabel k u) (relabel k v) p (relabel_graph k g)"
  by (simp add: add_edge_def Let_def relabel_update_edge relabel_ensure_node)

lemma relabel_counter:
  "relabel_graph k (g\<lparr>node_alias_count := n\<rparr>) =
     (relabel_graph k g)\<lparr>node_alias_count := n + k\<rparr>"
  by (simp add: relabel_graph_def)

lemma relabel_qualified_name [simp]: "is_qualified n \<Longrightarrow> relabel k n = n"
  by (auto simp: is_qualified_def)

lemma relabel_add_foreign_key:
  assumes "is_qualified (fk_referencing_table fk)" "is_qualified (fk_referenced_table fk)"
  shows "relabel_graph k (add_foreign_key pks fk g) =
           add_foreign_key pks fk (relabel_graph k g)"
  using assms
  by (simp add: add_foreign_key_def relabel_add_edge relabel_add_node relabel_counter)

lemma relabel_fold_foreign_keys:
  assumes "\<forall>fk \<in> set fks. is_qualified (fk_referencing_table fk) \<and> is_qualified (fk_referenced_table fk)"
  shows "relabel_graph k (fold (add_foreign_key pks) fks g) =
           fold (add_foreign_key pks) fks (relabel_graph k g)"
  using assms
  by (induction fks arbitrary: g) (simp_all add: relabel_add_foreign_key)

lemma relabel_fold_nodes:
  assumes "\<forall>n \<in> fst ` set pks. is_qualified n"
  shows "relabel_graph k (fold (\<lambda>(n, pk). add_node n (Some pk)) pks g) =
           fold (\<lambda>(n, pk). add_node n (Some pk)) pks (relabel_graph k g)"
  using assms
  by (induction pks arbitrary: g) (auto simp: relabel_add_node)

lemma relabel_build:
  assumes "\<forall>n \<in> fst ` set (load_pks c db). is_qualified n"
    and "\<forall>fk \<in> set (map snd (load_fks c db)).
           is_qualified (fk_referencing_table fk) \<and> is_qualified (fk_referenced_table fk)"
  shows "relabel_graph k (build c db g) = build c db (relabel_graph k g)"
  using assms by (simp add: build_def relabel_fold_foreign_keys relabel_fold_nodes)

lemma pks_add_keys: "fst ` set (pks_add t col pks) = insert t (fst ` set pks)"
  by (simp add: pks_add_def dom_update)

lemma fold_pks_qualified:
  assumes "\<forall>x \<in> set rows. is_qualified (key x)" "\<forall>n \<in> fst ` set acc. is_qualified n"
  shows "\<forall>n \<in> fst ` set (fold (\<lambda>x. pks_add (key x) (col x)) rows acc). is_qualified n"
  using assms
proof (induction rows arbitrary: acc)
  case Nil
  then show ?case by simp
next
  case (Cons x rows)
  have "\<forall>n \<in> fst ` set (pks_add (key x) (col x) acc). is_qualified n"
    using Cons.prems by (auto simp: pks_add_keys)
  with Cons show ?case by simp
qed

lemma is_qualified_name [simp]: "is_qualified (qualified_name s t)"
  by (auto simp: is_qualified_def)

lemma load_pks_qualified: "\<forall>n \<in> fst ` set (load_pks c db). is_qualified n"
proof (cases "sqlite c")
  case True
  have "\<forall>n \<in> fst ` set (fold (\<lambda>x. pks_add (qualified_name (joined_schemas c) (fst x)) (snd x))
            (tablesAndKeys db) []). is_qualified n"
    by (rule fold_pks_qualified) simp_all
  with True show ?thesis by (simp add: load_pks_def case_prod_unfold)
next
  case False
  have "\<forall>n \<in> fst ` set (fold (\<lambda>x. pks_add (qualified_name (fst x) (fst (snd x))) (snd (snd x)))
            (primary_keys db) []). is_qualified n"
    by (rule fold_pks_qualified) simp_all
  with False show ?thesis by (simp add: load_pks_def case_prod_unfold)
qed

lemma update_values: "x \<in> snd ` set (AList.update k v al) \<Longrightarrow> x = v \<or> x \<in> snd ` set al"
  by (induction al) (auto split: if_splits)

lemma fks_add_qualified:
  assumes "fks_qualified fks" "is_qualified (referencing_table r)" "is_qualified (referenced_table r)"
  shows "fks_qualified (fks_add r fks)"
  unfolding fks_qualified_def
proof
  fix fk assume "fk \<in> snd ` set (fks_add r fks)"
  then have "fk_referencing_table fk = referencing_table r \<and>
             fk_referenced_table fk = referenced_table r \<or> fk \<in> snd ` set fks"
    unfolding fks_add_def Let_def by (auto dest!: update_values)
  then show "is_qualified (fk_referencing_table fk) \<and> is_qualified (fk_referenced_table fk)"
    using assms by (auto simp: fks_qualified_def)
qed

lemma fold_fks_qualified:
  assumes "\<forall>r \<in> set rows. is_qualified (referencing_table r) \<and> is_qualified (referenced_table r)"
    and "fks_qualified acc"
  shows "fks_qualified (fold fks_add rows acc)"
  using assms by (induction rows arbitrary: acc) (simp_all add: fks_add_qualified)

lemma load_fks_qualified:
  "\<forall>fk \<in> set (map snd (load_fks c db)).
     is_qualified (fk_referencing_table fk) \<and> is_qualified (fk_referenced_table fk)"
proof -
  have "fks_qualified (fold fks_add (map (sqlite_fk_row c) (fkInfos db)) [])"
    by (rule fold_fks_qualified)
       (auto simp: fks_qualified_def sqlite_fk_row_def split_beta)
  moreover have "fks_qualified (fold fks_add (map mysql_fk_row (foreign_keys db)) [])"
    by (rule fold_fks_qualified)
       (auto simp: fks_qualified_def mysql_fk_row_def)
  ultimately have "fks_qualified (load_fks c db)"
    by (simp add: load_fks_def)
  then show ?thesis by (simp add: fks_qualified_def)
qed

lemma relabel_build_load: "relabel_graph k (build c db g) = build c db (relabel_graph k g)"
  by (rule relabel_build [OF load_pks_qualified load_fks_qualified])

lemma add_foreign_key_counter:
  "node_alias_count g \<le> node_alias_count (add_foreign_key pks fk g)"
  by (simp add: add_foreign_key_def add_edge_def ensure_node_def add_node_def Let_def
           split: option.splits)

lemma fold_foreign_keys_counter:
  "node_alias_count g \<le> node_alias_count (fold (add_foreign_key pks) fks g)"
proof (induction fks arbitrary: g)
  case Nil
  then show ?case by simp
next
  case (Cons fk fks)
  have "node_alias_count g \<le> node_alias_count (add_foreign_key pks fk g)"
    by (rule add_foreign_key_counter)
  also have "\<dots> \<le> node_alias_count (fold (add_foreign_key pks) fks (add_foreign_key pks fk g))"
    by (rule Cons.IH)
  finally show ?case by simp
qed

lemma fold_nodes_counter:
  "node_alias_count (fold (\<lambda>(n, pk). add_node n (Some pk)) pks g) = node_alias_count g"
  by (induction pks arbitrary: g) (auto simp: add_node_def split: option.splits)

lemma build_counter: "node_alias_count g \<le> node_alias_count (build c db g)"
  using fold_foreign_keys_counter
          [of "fold (\<lambda>(n, pk). add_node n (Some pk)) (load_pks c db) g"]
  by (simp add: build_def fold_nodes_counter)

lemma build_clear: "build c db (clear (build c db (clear deps))) =
  relabel_graph (node_alias_count (build c db (clear deps)) - node_alias_count deps)
    (build c db (clear deps))"
proof -
  let ?k = "node_alias_count (build c db (clear deps)) - node_alias_count deps"
  have "node_alias_count deps \<le> node_alias_count (build c db (clear deps))"
    using build_counter [of "clear deps" c db] by (simp add: clear_def)
  then have "clear (build c db (clear deps)) = relabel_graph ?k (clear deps)"
    by (simp add: clear_def relabel_graph_def)
  then show ?thesis by (simp add: relabel_build_load)
qed

lemma edge_rel_relabel:
  "edge_rel (relabel_graph k g) = map_prod (relabel k) (relabel k) ` edge_rel g"
  by (force simp: edge_rel_def)

lemma trancl_relabel:
  "(map_prod (relabel k) (relabel k) ` r)\<^sup>+ = map_prod (relabel k) (relabel k) ` (r\<^sup>+)"
proof (intro equalityI subrelI)
  fix a b
  assume "(a, b) \<in> (map_prod (relabel k) (relabel k) ` r)\<^sup>+"
  then show "(a, b) \<in> map_prod (relabel k) (relabel k) ` (r\<^sup>+)"
  proof (induction rule: trancl.induct)
    case (r_into_trancl a b)
    then show ?case by auto
  next
    case (trancl_into_trancl a b c)
    then obtain x y y' z where "a = relabel k x" "b = relabel k y" "(x, y) \<in> r\<^sup>+"
      "b = relabel k y'" "c = relabel k z" "(y', z) \<in> r"
      by auto
    moreover from this have "y = y'" by simp
    ultimately have "(x, z) \<in> r\<^sup>+" by auto
    with \<open>a = relabel k x\<close> \<open>c = relabel k z\<close> show ?case by force
  qed
next
  fix a b
  assume "(a, b) \<in> map_prod (relabel k) (relabel k) ` (r\<^sup>+)"
  then obtain x y where xy: "a = relabel k x" "b = relabel k y" "(x, y) \<in> r\<^sup>+" by auto
  from xy(3) have "(relabel k x, relabel k y) \<in> (map_prod (relabel k) (relabel k) ` r)\<^sup>+"
  proof (induction rule: trancl.induct)
    case (r_into_trancl a b)
    then have "(relabel k a, relabel k b) \<in> map_prod (relabel k) (relabel k) ` r" by force
    then show ?case by auto
  next
    case (trancl_into_trancl a b c)
    then have "(relabel k b, relabel k c) \<in> map_prod (relabel k) (relabel k) ` r" by force
    with trancl_into_trancl.IH show ?case by (rule trancl.trancl_into_trancl)
  qed
  with xy show "(a, b) \<in> (map_prod (relabel k) (relabel k) ` r)\<^sup>+" by simp
qed

lemma acyclic_relabel: "acyclic (edge_rel (relabel_graph k g)) = acyclic (edge_rel g)"
  by (force simp: acyclic_def edge_rel_relabel trancl_relabel)

lemma alias_nodes_relabel: "length (alias_nodes (relabel_graph k g)) = length (alias_nodes g)"
proof -
  have "length (filter (\<lambda>n. undigits n \<noteq> None)
                  (map fst (map (\<lambda>(n, a). (relabel k n, a)) xs))) =
        length (filter (\<lambda>n. undigits n \<noteq> None) (map fst xs))" for xs :: "(string \<times> string set option) list"
    by (induction xs) (simp_all add: undigits_relabel split_beta del: not_None_eq)
  then show ?thesis by (simp add: alias_nodes_def del: not_None_eq)
qed

text \<open>
  Claim C3, as amended. \<^verbatim>\<open>load\<close> clears the nodes and the edges, but not the alias
  counter, which goes on counting. When the rows of the introspection queries are the
  same, a second \<^verbatim>\<open>load\<close> on the same instance has the same outcome as the first and
  builds the same graph up to the names of the alias nodes: every table node is the same,
  the alias node \<open>i\<close> of the first graph is the alias node \<open>i + k\<close> of the second,
  where \<open>k\<close> is the number of alias nodes the first load made, and the edges and their
  attributes correspond under this renaming, which is one-to-one. The two graphs have
  the same number of alias nodes.
\<close>

theorem load_twice:
  "load c db (snd (load c db deps)) =
     (fst (load c db deps),
      relabel_graph (node_alias_count (snd (load c db deps)) - node_alias_count deps)
        (snd (load c db deps))) \<and>
   length (alias_nodes (snd (load c db (snd (load c db deps))))) =
     length (alias_nodes (snd (load c db deps))) \<and>
   inj (relabel k) \<and>
   (\<forall>schema table_name. relabel k (qualified_name schema table_name) =
      qualified_name schema table_name) \<and>
   (\<forall>i. relabel k (digits i) = digits (i + k))"
proof -
  have l: "load c db (snd (load c db deps)) =
     (fst (load c db deps),
      relabel_graph (node_alias_count (snd (load c db deps)) - node_alias_count deps)
        (snd (load c db deps)))"
  proof (cases "sqlite c \<and> 1 < length (schemas c)")
    case True
    then show ?thesis by (simp add: load_def clear_def relabel_graph_def)
  next
    case False
    then have "load c db g =
        (if acyclic (edge_rel (build c db (clear g))) then (Inr (), build c db (clear g))
         else (Inl cyclic_error, build c db (clear g)))" for g
      unfolding load_def by (rule if_not_P)
    then show ?thesis
      using build_clear [of c db deps] acyclic_relabel by simp
  qed
  then have "length (alias_nodes (snd (load c db (snd (load c db deps))))) =
     length (alias_nodes (snd (load c db deps)))"
    by (simp add: alias_nodes_relabel)
  with l show ?thesis by (simp add: inj_relabel)
qed

theorem load_twice_witness:
  "snd (load lab_networked owner_editor (snd (load lab_networked owner_editor Dependencies))) =
     relabel_graph 2 (snd (load lab_networked owner_editor Dependencies)) \<and>
   length (alias_nodes (snd (load lab_networked owner_editor Dependencies))) = 2 \<and>
   length (alias_nodes
      (snd (load lab_networked owner_editor
              (snd (load lab_networked owner_editor Dependencies))))) = 2"
proof -
  have n: "node_alias_count (snd (load lab_networked owner_editor Dependencies)) = 2"
    by (simp add: lab_networked_def owner_editor_def load_eval)
  have a: "alias_nodes (snd (load lab_networked owner_editor Dependencies)) = [''0'', ''1'']"
    by (simp add: lab_networked_def owner_editor_def load_eval alias_nodes_def undigits_def
                  numeral_string_def)
  show ?thesis
    using load_twice [of lab_networked owner_editor Dependencies 2] n a
    by (simp add: Dependencies_def alias_nodes_relabel)
qed

text \<open>
  The claim as stated fails in the names of the alias nodes: after a first load of
  \<open>owner_editor\<close> on the networked backend the counter stands at 2 and is not cleared,
  so the second load names its alias nodes \<^verbatim>\<open>2\<close> and \<^verbatim>\<open>3\<close> where the first had \<^verbatim>\<open>0\<close> and
  \<^verbatim>\<open>1\<close>: the nodes are not the same.
\<close>

theorem load_twice_new_labels:
  "map fst (nodes (snd (load lab_networked owner_editor Dependencies))) =
     [''`lab`.`a`'', ''`lab`.`b`'', ''0'', ''1''] \<and>
   node_alias_count (clear (snd (load lab_networked owner_editor Dependencies))) = 2 \<and>
   map fst (nodes (snd (load lab_networked owner_editor
                          (snd (load lab_networked owner_editor Dependencies))))) =
     [''`lab`.`a`'', ''`lab`.`b`'', ''2'', ''3'']"
  by (simp add: lab_networked_def owner_editor_def load_eval)

subsection \<open>Descendants and ancestors\<close>

lemma before_trans:
  assumes "distinct xs" "before xs u v" "before xs v w"
  shows "before xs u w"
proof -
  from assms(2) obtain i j where ij: "i < j" "j < length xs" "xs ! i = u" "xs ! j = v"
    by (auto simp: before_def)
  from assms(3) obtain j' k where jk: "j' < k" "k < length xs" "xs ! j' = v" "xs ! k = w"
    by (auto simp: before_def)
  from jk have "j' < length xs" by simp
  moreover from ij jk have "xs ! j = xs ! j'" by simp
  ultimately have "j = j'" using ij(2) assms(1) by (simp add: nth_eq_iff_index_eq)
  with ij jk have "i < k" by simp
  with ij jk show ?thesis unfolding before_def by blast
qed

lemma before_Cons: "before xs u v \<Longrightarrow> before (t # xs) u v"
proof -
  assume "before xs u v"
  then obtain i j where "i < j" "j < length xs" "xs ! i = u" "xs ! j = v"
    by (auto simp: before_def)
  then have "Suc i < Suc j \<and> Suc j < length (t # xs) \<and> (t # xs) ! Suc i = u \<and> (t # xs) ! Suc j = v"
    by simp
  then show ?thesis unfolding before_def by blast
qed

lemma before_hd: "v \<in> set xs \<Longrightarrow> before (t # xs) t v"
proof -
  assume "v \<in> set xs"
  then obtain j where "j < length xs" "xs ! j = v" by (auto simp: in_set_conv_nth)
  then have "0 < Suc j \<and> Suc j < length (t # xs) \<and> (t # xs) ! 0 = t \<and> (t # xs) ! Suc j = v"
    by simp
  then show ?thesis unfolding before_def by blast
qed

lemma before_rev: "before xs u v \<Longrightarrow> before (rev xs) v u"
proof -
  assume "before xs u v"
  then obtain i j where ij: "i < j" "j < length xs" "xs ! i = u" "xs ! j = v"
    by (auto simp: before_def)
  let ?n = "length xs"
  from ij have a: "?n - Suc j < ?n - Suc i" "?n - Suc i < length (rev xs)" by simp_all
  from ij have b: "rev xs ! (?n - Suc j) = v" "rev xs ! (?n - Suc i) = u"
    by (simp_all add: rev_nth)
  from a b show ?thesis unfolding before_def by blast
qed

lemma before_mem: "before xs u v \<Longrightarrow> u \<in> set xs \<and> v \<in> set xs"
  by (auto simp: before_def)

lemma node_names_subgraph: "node_names (subgraph g S) = node_names g \<inter> S"
  by (force simp: node_names_def subgraph_def)

lemma edge_rel_subgraph:
  "edge_rel (subgraph g S) = {(u, v). (u, v) \<in> edge_rel g \<and> u \<in> S \<and> v \<in> S}"
  by (force simp: edge_rel_def subgraph_def)

lemma acyclic_subgraph: "acyclic (edge_rel g) \<Longrightarrow> acyclic (edge_rel (subgraph g S))"
  by (rule acyclic_subset) (auto simp: edge_rel_subgraph)

lemma node_names_add_node: "node_names (add_node n a g) = insert n (node_names g)"
  by (auto simp: add_node_def node_names_def dom_update map_of_eq_None_iff
           split: option.splits dest: map_of_SomeD)

lemma edge_rel_add_node: "edge_rel (add_node n a g) = edge_rel g"
  by (simp add: add_node_def edge_rel_def split: option.splits)

lemma node_names_ensure_node: "node_names (ensure_node n g) = insert n (node_names g)"
  by (auto simp: ensure_node_def node_names_def)

lemma edge_rel_ensure_node: "edge_rel (ensure_node n g) = edge_rel g"
  by (simp add: ensure_node_def edge_rel_def)

lemma node_names_add_edge:
  "node_names (add_edge u v p g) = insert u (insert v (node_names g))"
  using node_names_ensure_node [of v "ensure_node u g"] node_names_ensure_node [of u g]
  by (auto simp: add_edge_def Let_def node_names_def)

lemma edge_rel_add_edge: "edge_rel (add_edge u v p g) = insert (u, v) (edge_rel g)"
  using edge_rel_ensure_node [of v "ensure_node u g"] edge_rel_ensure_node [of u g]
  by (auto simp: add_edge_def Let_def edge_rel_def dom_update)

lemma wf_add_node: "wf_graph g \<Longrightarrow> wf_graph (add_node n a g)"
  by (auto simp: wf_graph_def node_names_add_node edge_rel_add_node)

lemma wf_add_edge: "wf_graph g \<Longrightarrow> wf_graph (add_edge u v p g)"
  by (auto simp: wf_graph_def node_names_add_edge edge_rel_add_edge)

lemma wf_counter: "wf_graph (g\<lparr>node_alias_count := n\<rparr>) = wf_graph g"
  by (simp add: wf_graph_def node_names_def edge_rel_def)

lemma wf_add_foreign_key: "wf_graph g \<Longrightarrow> wf_graph (add_foreign_key pks fk g)"
  by (simp add: add_foreign_key_def wf_add_edge wf_add_node wf_counter)

lemma wf_build: "wf_graph g \<Longrightarrow> wf_graph (build c db g)"
proof -
  assume w: "wf_graph g"
  have a: "wf_graph g \<Longrightarrow> wf_graph (fold (\<lambda>(n, pk). add_node n (Some pk)) pks g)" for pks g
    by (induction pks arbitrary: g) (auto simp: wf_add_node)
  have b: "wf_graph g \<Longrightarrow> wf_graph (fold (add_foreign_key pks) fks g)" for pks fks g
    by (induction fks arbitrary: g) (auto simp: wf_add_foreign_key)
  show ?thesis unfolding build_def by (intro a b w)
qed

lemma wf_clear: "wf_graph (clear g)"
  by (simp add: wf_graph_def clear_def edge_rel_def)

lemma load_returns:
  assumes "load c db deps = (Inr (), g)"
  shows "acyclic (edge_rel g) \<and> wf_graph g"
  using assms wf_build [OF wf_clear, of c db deps]
  by (auto simp: load_def too_many_schemas_def split: if_splits)

lemma reachable_node:
  assumes "wf_graph g" "(u, v) \<in> (edge_rel g)\<^sup>+"
  shows "u \<in> node_names g \<and> v \<in> node_names g"
  using assms(2)
proof (induction rule: trancl.induct)
  case (r_into_trancl a b)
  with assms(1) show ?case by (auto simp: wf_graph_def)
next
  case (trancl_into_trancl a b c)
  with assms(1) show ?case by (auto simp: wf_graph_def)
qed

lemma topological_sort_subgraph:
  assumes "acyclic (edge_rel g)" "S \<subseteq> node_names g"
    and "topological_sort_of (subgraph g S) (ts (subgraph g S))"
  obtains xs where "ts (subgraph g S) = Inr xs" "distinct xs" "set xs = S"
    "\<And>u v. (u, v) \<in> edge_rel g \<Longrightarrow> u \<in> S \<Longrightarrow> v \<in> S \<Longrightarrow> before xs u v"
proof -
  from assms(1) have "acyclic (edge_rel (subgraph g S))" by (rule acyclic_subgraph)
  with assms(3) obtain xs where xs: "ts (subgraph g S) = Inr xs" "distinct xs"
      "set xs = node_names (subgraph g S)"
      "\<forall>(u, v) \<in> edge_rel (subgraph g S). before xs u v"
    by (auto simp: topological_sort_of_def split: sum.splits)
  from xs(3) assms(2) have "set xs = S" by (auto simp: node_names_subgraph)
  moreover from xs(4) have "before xs u v" if "(u, v) \<in> edge_rel g" "u \<in> S" "v \<in> S" for u v
    using that by (auto simp: edge_rel_subgraph)
  ultimately show ?thesis using xs(1,2) that by blast
qed

lemma descendants_sorted:
  assumes a: "acyclic (edge_rel g)" and w: "wf_graph g" and t: "t \<in> node_names g"
    and c: "topological_sort_of (subgraph g ({v. (t, v) \<in> (edge_rel g)\<^sup>+} - {t}))
              (ts (subgraph g ({v. (t, v) \<in> (edge_rel g)\<^sup>+} - {t})))"
  shows "\<exists>ds. descendants ts g t = Inr (t # ds) \<and>
           set ds = {v. (t, v) \<in> (edge_rel g)\<^sup>+} \<and> distinct (t # ds) \<and>
           (\<forall>u v. u \<in> set (t # ds) \<and> v \<in> set (t # ds) \<and> (u, v) \<in> (edge_rel g)\<^sup>+
                  \<longrightarrow> before (t # ds) u v)"
proof -
  let ?E = "edge_rel g"
  let ?D = "{v. (t, v) \<in> ?E\<^sup>+} - {t}"
  from a have nt: "(t, t) \<notin> ?E\<^sup>+" by (simp add: acyclic_def)
  then have D: "?D = {v. (t, v) \<in> ?E\<^sup>+}" by auto
  have sub: "?D \<subseteq> node_names g" using reachable_node [OF w] by auto
  from topological_sort_subgraph [where ts = ts, OF a sub c]
  obtain xs where xs: "ts (subgraph g ?D) = Inr xs" "distinct xs" "set xs = ?D"
    and ord: "\<And>u v. (u, v) \<in> ?E \<Longrightarrow> u \<in> ?D \<Longrightarrow> v \<in> ?D \<Longrightarrow> before xs u v"
    by blast
  have res: "descendants ts g t = Inr (t # xs)"
    using t xs(1) by (simp add: descendants_def nx_descendants_def)
  have inD: "v \<in> ?D" if "u \<in> ?D" "(u, v) \<in> ?E\<^sup>+" for u v
  proof -
    from that have "(t, v) \<in> ?E\<^sup>+" by auto
    with nt show ?thesis by auto
  qed
  have path: "before xs u v" if "(u, v) \<in> ?E\<^sup>+" "u \<in> ?D" for u v
    using that
  proof (induction rule: trancl.induct)
    case (r_into_trancl a b)
    then have "b \<in> ?D" using inD [of a b] by blast
    with r_into_trancl show ?case by (intro ord) auto
  next
    case (trancl_into_trancl a b c)
    then have b: "b \<in> ?D" using inD [of a b] by blast
    then have "c \<in> ?D" using inD [of b c] trancl_into_trancl.hyps(2) by blast
    with b trancl_into_trancl.hyps(2) have "before xs b c" by (intro ord) auto
    with trancl_into_trancl.IH [OF trancl_into_trancl.prems] xs(2) show ?case
      by (blast intro: before_trans)
  qed
  have "before (t # xs) u v"
    if "u \<in> set (t # xs)" "v \<in> set (t # xs)" "(u, v) \<in> ?E\<^sup>+" for u v
  proof (cases "u = t")
    case True
    with that nt have "v \<in> set xs" by auto
    with True show ?thesis by (simp add: before_hd)
  next
    case False
    with that xs(3) have u: "u \<in> ?D" by auto
    with that(3) have "before xs u v" by (intro path)
    then show ?thesis by (rule before_Cons)
  qed
  moreover have "distinct (t # xs)" using xs(2,3) by auto
  moreover have "set xs = {v. (t, v) \<in> ?E\<^sup>+}" using xs(3) D by simp
  ultimately show ?thesis using res by blast
qed

lemma ancestors_sorted:
  assumes a: "acyclic (edge_rel g)" and w: "wf_graph g" and t: "t \<in> node_names g"
    and c: "topological_sort_of (subgraph g ({u. (u, t) \<in> (edge_rel g)\<^sup>+} - {t}))
              (ts (subgraph g ({u. (u, t) \<in> (edge_rel g)\<^sup>+} - {t})))"
  shows "\<exists>as. ancestors ts g t = Inr (t # as) \<and>
           set as = {u. (u, t) \<in> (edge_rel g)\<^sup>+} \<and> distinct (t # as) \<and>
           (\<forall>u v. u \<in> set (t # as) \<and> v \<in> set (t # as) \<and> (u, v) \<in> (edge_rel g)\<^sup>+
                  \<longrightarrow> before (t # as) v u)"
proof -
  let ?E = "edge_rel g"
  let ?A = "{u. (u, t) \<in> ?E\<^sup>+} - {t}"
  from a have nt: "(t, t) \<notin> ?E\<^sup>+" by (simp add: acyclic_def)
  then have A: "?A = {u. (u, t) \<in> ?E\<^sup>+}" by auto
  have sub: "?A \<subseteq> node_names g" using reachable_node [OF w] by auto
  from topological_sort_subgraph [where ts = ts, OF a sub c]
  obtain xs where xs: "ts (subgraph g ?A) = Inr xs" "distinct xs" "set xs = ?A"
    and ord: "\<And>u v. (u, v) \<in> ?E \<Longrightarrow> u \<in> ?A \<Longrightarrow> v \<in> ?A \<Longrightarrow> before xs u v"
    by blast
  have res: "ancestors ts g t = Inr (t # rev xs)"
    using t xs(1) by (simp add: ancestors_def nx_ancestors_def)
  have inA: "u \<in> ?A" if "v \<in> ?A" "(u, v) \<in> ?E\<^sup>+" for u v
  proof -
    from that have "(u, t) \<in> ?E\<^sup>+" by auto
    with nt show ?thesis by auto
  qed
  have path: "before xs u v" if "(u, v) \<in> ?E\<^sup>+" "v \<in> ?A" for u v
    using that
  proof (induction rule: trancl.induct)
    case (r_into_trancl a b)
    then have "a \<in> ?A" using inA [of b a] by blast
    with r_into_trancl show ?case by (intro ord) auto
  next
    case (trancl_into_trancl a b c)
    then have b: "b \<in> ?A" using inA [of c b] by blast
    with trancl_into_trancl.hyps(2) trancl_into_trancl.prems have "before xs b c"
      by (intro ord) auto
    with trancl_into_trancl.IH [OF b] xs(2) show ?case
      by (blast intro: before_trans)
  qed
  have "before (t # rev xs) v u"
    if "u \<in> set (t # rev xs)" "v \<in> set (t # rev xs)" "(u, v) \<in> ?E\<^sup>+" for u v
  proof (cases "v = t")
    case True
    with that nt have "u \<in> set (rev xs)" by auto
    with True show ?thesis by (simp add: before_hd)
  next
    case False
    with that xs(3) have v: "v \<in> ?A" by auto
    with that(3) have "before xs u v" by (intro path)
    then have "before (rev xs) v u" by (rule before_rev)
    then show ?thesis by (rule before_Cons)
  qed
  moreover have "distinct (t # rev xs)" using xs(2,3) by auto
  moreover have "set (rev xs) = {u. (u, t) \<in> ?E\<^sup>+}" using xs(3) A by simp
  ultimately show ?thesis using res by blast
qed

text \<open>
  Claim C5. Let \<open>g\<close> be a graph that \<^verbatim>\<open>load\<close> returned with, \<open>t\<close> one of its nodes, and
  let the library's topological sort keep its contract on the two subgraphs the queries
  hand to it. Then \<open>descendants\<close> returns \<open>t\<close> followed by exactly the nodes reachable
  from \<open>t\<close>, each once, and in the whole list every node comes after each of its own
  ancestors that the list contains. \<open>ancestors\<close> returns \<open>t\<close> followed by exactly the
  nodes from which \<open>t\<close> is reachable, each once, in the reverse order: every node comes
  before each of its own ancestors, so that the ancestors nearest to \<open>t\<close>, the deepest
  in the graph, come first.
\<close>

theorem descendants_ancestors_sorted:
  assumes "load c db deps = (Inr (), g)" and "t \<in> node_names g"
    and "topological_sort_of (subgraph g ({v. (t, v) \<in> (edge_rel g)\<^sup>+} - {t}))
           (ts (subgraph g ({v. (t, v) \<in> (edge_rel g)\<^sup>+} - {t})))"
    and "topological_sort_of (subgraph g ({u. (u, t) \<in> (edge_rel g)\<^sup>+} - {t}))
           (ts (subgraph g ({u. (u, t) \<in> (edge_rel g)\<^sup>+} - {t})))"
  shows "(\<exists>ds. descendants ts g t = Inr (t # ds) \<and>
            set ds = {v. (t, v) \<in> (edge_rel g)\<^sup>+} \<and> distinct (t # ds) \<and>
            (\<forall>u v. u \<in> set (t # ds) \<and> v \<in> set (t # ds) \<and> (u, v) \<in> (edge_rel g)\<^sup>+
                   \<longrightarrow> before (t # ds) u v)) \<and>
         (\<exists>as. ancestors ts g t = Inr (t # as) \<and>
            set as = {u. (u, t) \<in> (edge_rel g)\<^sup>+} \<and> distinct (t # as) \<and>
            (\<forall>u v. u \<in> set (t # as) \<and> v \<in> set (t # as) \<and> (u, v) \<in> (edge_rel g)\<^sup>+
                   \<longrightarrow> before (t # as) v u))"
proof -
  from assms(1) have "acyclic (edge_rel g)" "wf_graph g"
    using load_returns by blast+
  with assms(2-4) show ?thesis
    using descendants_sorted [of g t ts] ancestors_sorted [of g t ts] by blast
qed

lemma acyclic_no_edges: "acyclic {}"
  by (simp add: acyclic_def)

lemma trancl_one_edge: "(x, y) \<in> {(a, b)}\<^sup>+ \<longleftrightarrow> x = a \<and> y = b"
proof
  assume "(x, y) \<in> {(a, b)}\<^sup>+"
  then show "x = a \<and> y = b" by (induction rule: trancl.induct) auto
next
  assume "x = a \<and> y = b"
  then show "(x, y) \<in> {(a, b)}\<^sup>+" by auto
qed

lemma plain_graph_loaded:
  "load lab_networked plain_reference Dependencies = (Inr (), plain_graph)"
proof -
  have b: "build lab_networked plain_reference (clear Dependencies) = plain_graph"
    by (simp add: lab_networked_def plain_reference_def plain_graph_def build_def clear_def
                  ensure_node_def load_pks_def load_fks_def qualified_name_def pks_add_def
                  pks_get_def fks_add_def mysql_fk_row_def add_node_def add_foreign_key_def
                  edge_props_def add_edge_def node_names_def Let_def register_def
                  established_def Dependencies_def)
  have a: "acyclic (edge_rel plain_graph)"
    by (simp add: plain_graph_def edge_rel_def acyclic_no_edges)
  have n: "\<not> sqlite lab_networked"
    by (simp add: lab_networked_def register_def established_def)
  show ?thesis by (simp add: load_def b a n)
qed

lemma plain_graph_reach:
  "{v. (''`lab`.`a`'', v) \<in> (edge_rel plain_graph)\<^sup>+} - {''`lab`.`a`''} = {''`lab`.`b`''}"
  "{u. (u, ''`lab`.`a`'') \<in> (edge_rel plain_graph)\<^sup>+} - {''`lab`.`a`''} = {}"
  "{v. (''`lab`.`b`'', v) \<in> (edge_rel plain_graph)\<^sup>+} - {''`lab`.`b`''} = {}"
  "{u. (u, ''`lab`.`b`'') \<in> (edge_rel plain_graph)\<^sup>+} - {''`lab`.`b`''} = {''`lab`.`a`''}"
  by (auto simp: plain_graph_def edge_rel_def trancl_one_edge)

theorem descendants_ancestors_sorted_witness:
  "descendants in_node_order plain_graph ''`lab`.`a`'' = Inr [''`lab`.`a`'', ''`lab`.`b`''] \<and>
   ancestors in_node_order plain_graph ''`lab`.`a`'' = Inr [''`lab`.`a`''] \<and>
   descendants in_node_order plain_graph ''`lab`.`b`'' = Inr [''`lab`.`b`''] \<and>
   ancestors in_node_order plain_graph ''`lab`.`b`'' = Inr [''`lab`.`b`'', ''`lab`.`a`'']"
proof -
  have s: "topological_sort_of (subgraph plain_graph {''`lab`.`b`''})
             (in_node_order (subgraph plain_graph {''`lab`.`b`''}))"
    "topological_sort_of (subgraph plain_graph {''`lab`.`a`''})
             (in_node_order (subgraph plain_graph {''`lab`.`a`''}))"
    "topological_sort_of (subgraph plain_graph {}) (in_node_order (subgraph plain_graph {}))"
    by (simp_all add: topological_sort_of_def in_node_order_def subgraph_def plain_graph_def
                      edge_rel_def node_names_def acyclic_no_edges)
  have n: "''`lab`.`a`'' \<in> node_names plain_graph" "''`lab`.`b`'' \<in> node_names plain_graph"
    by (simp_all add: plain_graph_def node_names_def)
  have o: "in_node_order (subgraph plain_graph {''`lab`.`b`''}) = Inr [''`lab`.`b`'']"
    "in_node_order (subgraph plain_graph {''`lab`.`a`''}) = Inr [''`lab`.`a`'']"
    "in_node_order (subgraph plain_graph {}) = Inr []"
    by (simp_all add: in_node_order_def subgraph_def plain_graph_def)
  have v: "descendants in_node_order plain_graph ''`lab`.`a`'' = Inr [''`lab`.`a`'', ''`lab`.`b`'']"
    "ancestors in_node_order plain_graph ''`lab`.`a`'' = Inr [''`lab`.`a`'']"
    "descendants in_node_order plain_graph ''`lab`.`b`'' = Inr [''`lab`.`b`'']"
    "ancestors in_node_order plain_graph ''`lab`.`b`'' = Inr [''`lab`.`b`'', ''`lab`.`a`'']"
    by (simp_all add: descendants_def ancestors_def nx_descendants_def nx_ancestors_def n
                      plain_graph_reach o)
  from s have
    "topological_sort_of (subgraph plain_graph
        ({v. (''`lab`.`a`'', v) \<in> (edge_rel plain_graph)\<^sup>+} - {''`lab`.`a`''}))
       (in_node_order (subgraph plain_graph
        ({v. (''`lab`.`a`'', v) \<in> (edge_rel plain_graph)\<^sup>+} - {''`lab`.`a`''})))"
    "topological_sort_of (subgraph plain_graph
        ({u. (u, ''`lab`.`a`'') \<in> (edge_rel plain_graph)\<^sup>+} - {''`lab`.`a`''}))
       (in_node_order (subgraph plain_graph
        ({u. (u, ''`lab`.`a`'') \<in> (edge_rel plain_graph)\<^sup>+} - {''`lab`.`a`''})))"
    by (simp_all only: plain_graph_reach)
  from descendants_ancestors_sorted [OF plain_graph_loaded n(1) this] v
  show ?thesis by (simp only: simp_thms)
qed

subsection \<open>The metadata of the edges\<close>














end
